theory Spec2Isabelle
  imports Main "HOL-Library.Word"
begin

unbundle bit_operations_syntax

section \<open>Values, errors and panics\<close>

text \<open>
  A Go \<^verbatim>\<open>byte\<close> is an 8-bit word, a \<^verbatim>\<open>[]byte\<close> and a \<^verbatim>\<open>string\<close> are lists of
  bytes. A Go function of this package either returns a value, returns an error value
  (\<^verbatim>\<open>errors.New(...)\<close>, or an error handed up from a collaborator), or panics at run
  time (an index or a slice bound out of range). The three outcomes are kept apart:
  \<open>Inr v\<close> is a normal return, \<open>Inl (Error e)\<close> a returned error value and
  \<open>Inl (Panic p)\<close> a run-time panic.
\<close>

type_synonym byte = "8 word"

datatype err =
    RandError                 \<comment> \<open>the random source failed\<close>
  | InvalidPadding            \<comment> \<open>"Invalid padding!"\<close>
  | InvalidEscape             \<comment> \<open>"Invalid slash escaped character found!"\<close>
  | AtoiSyntax                \<comment> \<open>strconv.Atoi: invalid syntax\<close>
  | AtoiRange                 \<comment> \<open>strconv.Atoi: value out of range\<close>
  | LookupError               \<comment> \<open>dns.Exchange failed\<close>
  | NoAnswer                  \<comment> \<open>"No answer to pubkey DNS request"\<close>
  | NotTXT                    \<comment> \<open>"First answer not a TXT record"\<close>
  | NotDNSC                   \<comment> \<open>"TXT record is not a DNSC certificate"\<close>
  | EOF                       \<comment> \<open>io.EOF from binary.Read\<close>
  | ErrUnexpectedEOF          \<comment> \<open>io.ErrUnexpectedEOF from binary.Read\<close>
  | NoSupportedCertificate    \<comment> \<open>"No certificate for supported crypto constructions found"\<close>
  | InvalidSignature          \<comment> \<open>"Invalid certificate Signature"\<close>
  | TimeTraveler              \<comment> \<open>"Time traveler alert! ..."\<close>
  | NotYetValid               \<comment> \<open>"Certificate is not yet valid"\<close>
  | NoLongerValid             \<comment> \<open>"Certificate is no longer valid"\<close>
  | KeyGenError               \<comment> \<open>box.GenerateKey failed\<close>
  | PackError                 \<comment> \<open>msg.PackBuffer failed\<close>
  | DialError                 \<comment> \<open>net.Dial failed\<close>
  | ReadError                 \<comment> \<open>reading the reply failed\<close>
  | MagicMismatch             \<comment> \<open>"Magic bytes do not match"\<close>
  | DecryptError              \<comment> \<open>"Could not decrypt response"\<close>
  | UnpackError               \<comment> \<open>dns.Msg.Unpack failed\<close>

datatype panic =
    IndexOutOfRange           \<comment> \<open>index out of range\<close>
  | SliceBoundsOutOfRange     \<comment> \<open>slice bounds out of range\<close>

datatype failure = Error err | Panic panic

section \<open>Wire types (types.go) and package constants (protocol.go)\<close>

text \<open>The fixed-size byte arrays of the structs are byte lists of that length.\<close>

record SignedBincertFields =
  ServerPublicKey :: "byte list"   \<comment> \<open>[32]byte\<close>
  MagicQuery :: "byte list"        \<comment> \<open>[8]byte\<close>
  Serial :: "byte list"            \<comment> \<open>[4]byte\<close>
  TSBegin :: "32 word"
  TSEnd :: "32 word"

record signedBincert =
  MagicCert :: "byte list"         \<comment> \<open>[4]byte\<close>
  VersionMajor :: "16 word"
  VersionMinor :: "16 word"
  Signature :: "byte list"         \<comment> \<open>[64]byte\<close>
  SignedData :: "byte list"        \<comment> \<open>[52]byte\<close>

record dnsCryptQueryHeader =
  ClientMagic :: "byte list"       \<comment> \<open>[8]byte\<close>
  ClientPublicKey :: "byte list"   \<comment> \<open>[32]byte\<close>
  ClientNonce :: "byte list"       \<comment> \<open>[12]byte\<close>

text \<open>
  The response header's field \<^verbatim>\<open>ClientNonce\<close> is written \<open>ClientNonce'\<close>: a record
  field is a constant, and the query header already has one of that name.
\<close>

record dnsCryptResponseHeader =
  ServerMagic :: "byte list"       \<comment> \<open>[8]byte\<close>
  ClientNonce' :: "byte list"      \<comment> \<open>[12]byte\<close>
  ServerNonce :: "byte list"       \<comment> \<open>[12]byte\<close>

definition certificateMagic :: "byte list" where
  "certificateMagic = [0x44, 0x4E, 0x53, 0x43]"   \<comment> \<open>"DNSC"\<close>

definition resolverMagic :: "byte list" where
  "resolverMagic = [0x72, 0x36, 0x66, 0x6e, 0x76, 0x57, 0x6a, 0x38]"

definition dnsMaxSizeUDP :: nat where
  "dnsMaxSizeUDP = 65536 - 20 - 8"

section \<open>Padding codec (types.go)\<close>

text \<open>
  \<^verbatim>\<open>addPadding\<close> draws \<^verbatim>\<open>rand.Int(rand.Reader, big.NewInt(255))\<close>; the draw is an
  argument of the model (\<open>Inl e\<close> when the random source fails). The draw is narrowed to
  a byte, a slice of that many zero bytes is made, its element 0 is set to \<open>0x80\<close> (an
  index expression, checked at run time) and the slice is appended to the input.
\<close>

definition addPadding :: "err + int \<Rightarrow> byte list \<Rightarrow> failure + byte list" where
  "addPadding draw unpadded =
     (case draw of
        Inl e \<Rightarrow> Inl (Error e)
      | Inr paddingAmountBig \<Rightarrow>
          (let paddingAmount = (word_of_int paddingAmountBig :: byte);
               padding = replicate (unat paddingAmount) (0 :: byte)
           in if 0 < length padding
              then Inr (unpadded @ padding[0 := 0x80])
              else Inl (Panic IndexOutOfRange)))"

text \<open>
  \<^verbatim>\<open>bytes.TrimRight(s, cutset)\<close> of the standard library, for a cutset of ASCII bytes:
  the longest prefix of \<open>s\<close> whose last byte is not in the cutset.
\<close>

definition TrimRight :: "byte list \<Rightarrow> byte list \<Rightarrow> byte list" where
  "TrimRight s cutset = rev (dropWhile (\<lambda>b. b \<in> set cutset) (rev s))"

text \<open>
  \<^verbatim>\<open>removePadding\<close> reads \<^verbatim>\<open>unpadded[len(unpadded)-1]\<close> with no length check: on an
  empty slice the index is \<open>-1\<close> and the read panics.
\<close>

definition removePadding :: "byte list \<Rightarrow> failure + byte list" where
  "removePadding padded =
     (let unpadded = TrimRight padded [0]
      in if unpadded = [] then Inl (Panic IndexOutOfRange)
         else if unpadded ! (length unpadded - 1) \<noteq> 0x80 then Inl (Error InvalidPadding)
         else Inr (take (length unpadded - 1) unpadded))"

section \<open>Text unescape codec (types.go)\<close>

text \<open>
  \<^verbatim>\<open>unicode.IsDigit\<close> on a rune made from one byte: below U+0100 the only decimal
  digits are the ASCII ones.
\<close>

definition IsDigit :: "byte \<Rightarrow> bool" where
  "IsDigit b = (0x30 \<le> b \<and> b \<le> 0x39)"

text \<open>
  \<^verbatim>\<open>strconv.Atoi\<close> of the standard library: an optional sign, then one or more decimal
  digits; a value outside the 64-bit \<^verbatim>\<open>int\<close> is a range error.
\<close>

definition Atoi :: "byte list \<Rightarrow> err + int" where
  "Atoi s =
     (let neg = (s \<noteq> [] \<and> hd s = 0x2D);
          ds = (if s \<noteq> [] \<and> (hd s = 0x2D \<or> hd s = 0x2B) then tl s else s);
          n = foldl (\<lambda>n ch. n * 10 + uint (ch - 0x30)) 0 ds
      in if ds = [] \<or> \<not> list_all IsDigit ds then Inl AtoiSyntax
         else if 2 ^ 63 \<le> (if neg then n - 1 else n) then Inl AtoiRange
         else Inr (if neg then - n else n))"

text \<open>
  One run of the body of the loop of \<^verbatim>\<open>unpackTXT\<close> ends in one of four ways: it reaches
  the end of the body (the post statement \<^verbatim>\<open>i++\<close> follows), it leaves the loop by
  \<^verbatim>\<open>break\<close>, it returns the buffer with an error, or an index expression panics.
\<close>

datatype step =
    Next "byte list" nat      \<comment> \<open>the buffer and \<open>j\<close> at the end of the body\<close>
  | Break
  | Return "byte list" err
  | Crash panic

text \<open>\<^verbatim>\<open>unpackedTXT[i] = v\<close>, an index expression checked at run time, then \<open>j\<close> moves on.\<close>

definition assign :: "byte list \<Rightarrow> nat \<Rightarrow> byte \<Rightarrow> nat \<Rightarrow> step" where
  "assign buf i v j = (if i < length buf then Next (buf[i := v]) j else Crash IndexOutOfRange)"

text \<open>
  The loop body, entered with \<open>j0 < length txt\<close>. The reads \<^verbatim>\<open>txt[j]\<close>, \<^verbatim>\<open>txt[j+1]\<close>,
  \<^verbatim>\<open>txt[j+2]\<close> and the slice \<^verbatim>\<open>txt[j:j+3]\<close> stand behind the tests
  \<^verbatim>\<open>j == len(txt)\<close> and \<^verbatim>\<open>j+2 < len(txt)\<close> and are in range.
\<close>

definition unpackTXT_body :: "byte list \<Rightarrow> byte list \<Rightarrow> nat \<Rightarrow> nat \<Rightarrow> step" where
  "unpackTXT_body txt unpackedTXT i j0 =
     (if txt ! j0 = 0x5C then
        (let j = j0 + 1 in
         if j = length txt then Break
         else if j + 2 < length txt \<and> IsDigit (txt ! j) \<and> IsDigit (txt ! (j + 1))
                 \<and> IsDigit (txt ! (j + 2)) then
           (case Atoi (take 3 (drop j txt)) of
              Inl e \<Rightarrow> Return unpackedTXT e
            | Inr byteVal \<Rightarrow> assign unpackedTXT i (word_of_int byteVal) (j + 3))
         else if txt ! j = 0x6E then assign unpackedTXT i 0x0A (j + 1)
         else if txt ! j = 0x74 then assign unpackedTXT i 0x09 (j + 1)
         else if txt ! j = 0x72 then assign unpackedTXT i 0x0D (j + 1)
         else Return unpackedTXT InvalidEscape)
      else assign unpackedTXT i (txt ! j0) (j0 + 1))"

text \<open>\<^verbatim>\<open>unpackedTXT[0:i]\<close>, a slice expression checked at run time.\<close>

definition slice_to :: "byte list \<Rightarrow> nat \<Rightarrow> panic + (byte list \<times> err option)" where
  "slice_to buf i =
     (if i \<le> length buf then Inr (take i buf, None) else Inl SliceBoundsOutOfRange)"

text \<open>
  The loop \<^verbatim>\<open>for ; j < len(txt); i++\<close>. A return of the Go function is the pair of
  its two results (the slice, and the error or \<open>None\<close> for \<^verbatim>\<open>nil\<close>).
\<close>

function unpackTXT_loop ::
  "byte list \<Rightarrow> byte list \<Rightarrow> nat \<Rightarrow> nat \<Rightarrow> panic + (byte list \<times> err option)" where
  "unpackTXT_loop txt unpackedTXT i j =
     (if j < length txt then
        (case unpackTXT_body txt unpackedTXT i j of
           Next buf j' \<Rightarrow> unpackTXT_loop txt buf (i + 1) j'
         | Break \<Rightarrow> slice_to unpackedTXT i
         | Return buf e \<Rightarrow> Inr (buf, Some e)
         | Crash p \<Rightarrow> Inl p)
      else slice_to unpackedTXT i)"
  by pat_completeness auto
termination
  by (relation "measure (\<lambda>(txt, buf, i, j). length txt - j)")
     (auto simp: unpackTXT_body_def assign_def Let_def split: if_splits sum.splits)

definition unpackTXT :: "byte list \<Rightarrow> panic + (byte list \<times> err option)" where
  "unpackTXT txt = unpackTXT_loop txt (replicate (length txt) 0) 0 0"

section \<open>Certificate resolver (protocol.go, GetValidCert)\<close>

text \<open>
  \<^verbatim>\<open>binary.Read(r, binary.BigEndian, &v)\<close> of the standard library, for a struct of
  fixed size: \<^verbatim>\<open>io.ReadFull\<close> of that many bytes from the reader (\<^verbatim>\<open>io.EOF\<close> when
  there is none, \<^verbatim>\<open>io.ErrUnexpectedEOF\<close> when there are too few), then the fields in
  order, integers big-endian.
\<close>

definition ReadFull :: "byte list \<Rightarrow> nat \<Rightarrow> err + byte list" where
  "ReadFull r n =
     (if n \<le> length r then Inr (take n r)
      else if r = [] then Inl EOF else Inl ErrUnexpectedEOF)"

definition BigEndian_Uint16 :: "byte list \<Rightarrow> 16 word" where
  "BigEndian_Uint16 b = ucast (b ! 1) OR push_bit 8 (ucast (b ! 0))"

definition BigEndian_Uint32 :: "byte list \<Rightarrow> 32 word" where
  "BigEndian_Uint32 b =
     ucast (b ! 3) OR push_bit 8 (ucast (b ! 2)) OR push_bit 16 (ucast (b ! 1))
       OR push_bit 24 (ucast (b ! 0))"

definition decode_signedBincert :: "byte list \<Rightarrow> signedBincert" where
  "decode_signedBincert d =
     \<lparr>MagicCert = take 4 d,
      VersionMajor = BigEndian_Uint16 (take 2 (drop 4 d)),
      VersionMinor = BigEndian_Uint16 (take 2 (drop 6 d)),
      Signature = take 64 (drop 8 d),
      SignedData = take 52 (drop 72 d)\<rparr>"

definition read_signedBincert :: "byte list \<Rightarrow> err + signedBincert" where
  "read_signedBincert r =
     (case ReadFull r 124 of Inl e \<Rightarrow> Inl e | Inr d \<Rightarrow> Inr (decode_signedBincert d))"

definition decode_SignedBincertFields :: "byte list \<Rightarrow> SignedBincertFields" where
  "decode_SignedBincertFields d =
     \<lparr>ServerPublicKey = take 32 d,
      MagicQuery = take 8 (drop 32 d),
      Serial = take 4 (drop 40 d),
      TSBegin = BigEndian_Uint32 (take 4 (drop 44 d)),
      TSEnd = BigEndian_Uint32 (take 4 (drop 48 d))\<rparr>"

definition read_SignedBincertFields :: "byte list \<Rightarrow> err + SignedBincertFields" where
  "read_SignedBincertFields r =
     (case ReadFull r 52 of Inl e \<Rightarrow> Inl e | Inr d \<Rightarrow> Inr (decode_SignedBincertFields d))"

text \<open>
  An answer record of the DNS reply: a \<^verbatim>\<open>*dns.TXT\<close> with its \<^verbatim>\<open>Txt []string\<close>, or a
  record of another type.
\<close>

datatype RR = TXT "byte list list" | OtherRR

text \<open>
  The body of the loop over the answers up to the parsed certificate (lines 41 to 63).
  \<^verbatim>\<open>t.Txt[0]\<close> is an index expression and \<^verbatim>\<open>t.Txt[0][0:5]\<close> a slice expression, both
  checked at run time; the five-byte slice is compared with the four-byte
  \<open>certificateMagic\<close>, and the error is returned when they are equal.
\<close>

definition parse_answer :: "RR \<Rightarrow> failure + signedBincert" where
  "parse_answer answer =
     (case answer of
        OtherRR \<Rightarrow> Inl (Error NotTXT)
      | TXT Txt \<Rightarrow>
          if Txt = [] then Inl (Panic IndexOutOfRange)
          else if length (Txt ! 0) < 5 then Inl (Panic SliceBoundsOutOfRange)
          else if take 5 (Txt ! 0) = certificateMagic then Inl (Error NotDNSC)
          else (case unpackTXT (Txt ! 0) of
                  Inl p \<Rightarrow> Inl (Panic p)
                | Inr (unpackedBinCert, Some e) \<Rightarrow> Inl (Error e)
                | Inr (unpackedBinCert, None) \<Rightarrow>
                    (case read_signedBincert unpackedBinCert of
                       Inl e \<Rightarrow> Inl (Error e)
                     | Inr bincert \<Rightarrow> Inr bincert)))"

text \<open>
  The loop over the answers (lines 39 to 73). The second argument is the variable
  \<^verbatim>\<open>bincert\<close> (\<open>None\<close> for \<^verbatim>\<open>nil\<close>): every round overwrites it, with the parsed
  certificate when its major version is 1 and with \<^verbatim>\<open>nil\<close> otherwise.
\<close>

fun scan_answers :: "RR list \<Rightarrow> signedBincert option \<Rightarrow> failure + signedBincert option" where
  "scan_answers [] bincert = Inr bincert"
| "scan_answers (answer # rest) bincert =
     (case parse_answer answer of
        Inl f \<Rightarrow> Inl f
      | Inr parsed \<Rightarrow>
          if VersionMajor parsed \<noteq> 0x01 then scan_answers rest None
          else scan_answers rest (Some parsed))"

text \<open>
  The validity window (lines 93 to 107): \<open>nowSigned\<close> is \<^verbatim>\<open>time.Now().Unix()\<close>, an
  \<^verbatim>\<open>int64\<close>; when it is not negative it is read as a \<^verbatim>\<open>uint64\<close> and compared with the
  two \<^verbatim>\<open>uint32\<close> timestamps widened to \<^verbatim>\<open>uint64\<close>.
\<close>

definition check_validity :: "SignedBincertFields \<Rightarrow> 64 word \<Rightarrow> failure + SignedBincertFields" where
  "check_validity bincertFields nowSigned =
     (if word_sle 0 nowSigned then
        (let now = nowSigned
         in if now < ucast (TSBegin bincertFields) then Inl (Error NotYetValid)
            else if now > ucast (TSEnd bincertFields) then Inl (Error NoLongerValid)
            else Inr bincertFields)
      else Inl (Error TimeTraveler))"

text \<open>
  The signature check and what follows it (lines 79 to 109). \<open>Verify\<close> is
  \<^verbatim>\<open>ed25519.Verify\<close>, an argument of the model.
\<close>

definition verify_bincert ::
  "(byte list \<Rightarrow> byte list \<Rightarrow> byte list \<Rightarrow> bool) \<Rightarrow> byte list \<Rightarrow> signedBincert \<Rightarrow> 64 word
     \<Rightarrow> failure + SignedBincertFields" where
  "verify_bincert Verify providerKey bincert nowSigned =
     (if \<not> Verify providerKey (SignedData bincert) (Signature bincert)
      then Inl (Error InvalidSignature)
      else (case read_SignedBincertFields (SignedData bincert) of
              Inl e \<Rightarrow> Inl (Error e)
            | Inr bincertFields \<Rightarrow> check_validity bincertFields nowSigned))"

text \<open>
  \<^verbatim>\<open>GetValidCert\<close>. The first argument is what \<^verbatim>\<open>dns.Exchange\<close> gave: an error, or the
  answer section of the reply; the last is the clock.
\<close>

definition GetValidCert ::
  "err + RR list \<Rightarrow> (byte list \<Rightarrow> byte list \<Rightarrow> byte list \<Rightarrow> bool) \<Rightarrow> byte list \<Rightarrow> 64 word
     \<Rightarrow> failure + SignedBincertFields" where
  "GetValidCert exchanged Verify providerKey nowSigned =
     (case exchanged of
        Inl e \<Rightarrow> Inl (Error e)
      | Inr answers \<Rightarrow>
          if length answers = 0 then Inl (Error NoAnswer)
          else (case scan_answers answers None of
                  Inl f \<Rightarrow> Inl f
                | Inr None \<Rightarrow> Inl (Error NoSupportedCertificate)
                | Inr (Some bincert) \<Rightarrow> verify_bincert Verify providerKey bincert nowSigned))"

section \<open>Encrypted exchange engine (protocol.go, ExchangeEncrypted)\<close>

text \<open>
  What the collaborators of one exchange give: the random source, the NaCl box, the DNS
  message codec and the UDP connection. \<open>conn_Read\<close> maps the datagram sent to the
  result of the one read of the reply.
\<close>

record 'msg collaborators =
  rand_Read :: "err + byte list"                     \<comment> \<open>12 random bytes\<close>
  box_GenerateKey :: "err + (byte list \<times> byte list)"  \<comment> \<open>public key, secret key\<close>
  PackBuffer :: "'msg \<Rightarrow> err + byte list"
  rand_Int :: "err + int"
  box_Seal :: "byte list \<Rightarrow> byte list \<Rightarrow> byte list \<Rightarrow> byte list \<Rightarrow> byte list"
  net_Dial :: "err option"
  conn_Read :: "byte list \<Rightarrow> err + byte list"
  box_Open :: "byte list \<Rightarrow> byte list \<Rightarrow> byte list \<Rightarrow> byte list \<Rightarrow> byte list option"
  Unpack :: "byte list \<Rightarrow> err + 'msg"

definition write_dnsCryptQueryHeader :: "dnsCryptQueryHeader \<Rightarrow> byte list" where
  "write_dnsCryptQueryHeader h = ClientMagic h @ ClientPublicKey h @ ClientNonce h"

definition decode_dnsCryptResponseHeader :: "byte list \<Rightarrow> dnsCryptResponseHeader" where
  "decode_dnsCryptResponseHeader d =
     \<lparr>ServerMagic = take 8 d,
      ClientNonce' = take 12 (drop 8 d),
      ServerNonce = take 12 (drop 20 d)\<rparr>"

definition read_dnsCryptResponseHeader :: "byte list \<Rightarrow> err + dnsCryptResponseHeader" where
  "read_dnsCryptResponseHeader r =
     (case ReadFull r 32 of Inl e \<Rightarrow> Inl e | Inr d \<Rightarrow> Inr (decode_dnsCryptResponseHeader d))"

text \<open>
  The builtin \<^verbatim>\<open>copy(dst, src)\<close>: the first \<open>min (len dst) (len src)\<close> elements of
  \<open>dst\<close> are overwritten; the result is \<open>dst\<close> afterwards.
\<close>

definition copy :: "byte list \<Rightarrow> byte list \<Rightarrow> byte list" where
  "copy dst src = take (length dst) src @ drop (length src) dst"

text \<open>
  Building and sending the query (lines 115 to 158). \<open>rand_Read w\<close> is the twelve
  bytes written to \<^verbatim>\<open>queryHeader.ClientNonce[:12]\<close>. The result is what the second half
  of the function still uses: the ephemeral secret key, the array \<^verbatim>\<open>nonce\<close> and the
  datagram written to the connection (the results of the three \<^verbatim>\<open>binary.Write\<close>
  calls are not looked at).
\<close>

definition send_query ::
  "'msg collaborators \<Rightarrow> 'msg \<Rightarrow> SignedBincertFields
     \<Rightarrow> failure + (byte list \<times> byte list \<times> byte list)" where
  "send_query w msg bincertFields =
     (case rand_Read w of
        Inl e \<Rightarrow> Inl (Error e)
      | Inr clientNonce \<Rightarrow>
     (case box_GenerateKey w of
        Inl e \<Rightarrow> Inl (Error e)
      | Inr (clientPK, clientSK) \<Rightarrow>
     (let queryHeader = \<lparr>ClientMagic = MagicQuery bincertFields,
                         ClientPublicKey = clientPK,
                         ClientNonce = clientNonce\<rparr>
      in case PackBuffer w msg of
        Inl e \<Rightarrow> Inl (Error e)
      | Inr serializedDNSQuery \<Rightarrow>
     (case addPadding (rand_Int w) serializedDNSQuery of
        Inl f \<Rightarrow> Inl f
      | Inr padded \<Rightarrow>
     (let nonce = copy (replicate 24 0) (take 12 (ClientNonce queryHeader) @ replicate 16 0);
          encryptedQuery = box_Seal w padded nonce (ServerPublicKey bincertFields) clientSK;
          dnscryptQuery = write_dnsCryptQueryHeader queryHeader @ encryptedQuery
      in case net_Dial w of
        Some e \<Rightarrow> Inl (Error e)
      | None \<Rightarrow> Inr (clientSK, nonce, dnscryptQuery))))))"

text \<open>
  Receiving and opening the reply (lines 164 to 207). \<open>p\<close> is the receive buffer of
  \<open>dnsMaxSizeUDP\<close> zero bytes with the \<open>n\<close> bytes read at its start; \<^verbatim>\<open>p[32:n]\<close> is a
  slice expression checked at run time. \<open>nonce0\<close> is the array \<^verbatim>\<open>nonce\<close> as the first
  half left it; \<^verbatim>\<open>copy\<close> writes the header's two nonce fields over it.
\<close>

definition receive_reply ::
  "'msg collaborators \<Rightarrow> SignedBincertFields \<Rightarrow> byte list \<Rightarrow> byte list \<Rightarrow> byte list
     \<Rightarrow> failure + 'msg" where
  "receive_reply w bincertFields clientSK nonce0 sent =
     (case conn_Read w sent of
        Inl e \<Rightarrow> Inl (Error e)
      | Inr datagram \<Rightarrow>
     (let n = min (length datagram) dnsMaxSizeUDP;
          p = take n datagram @ replicate (dnsMaxSizeUDP - n) 0
      in case read_dnsCryptResponseHeader (take 32 p) of
        Inl e \<Rightarrow> Inl (Error e)
      | Inr responseHeader \<Rightarrow>
          if ServerMagic responseHeader \<noteq> resolverMagic then Inl (Error MagicMismatch)
          else if n < 32 then Inl (Panic SliceBoundsOutOfRange)
          else
            (let encryptedResponse = drop 32 (take n p);
                 nonce = copy nonce0 (ClientNonce' responseHeader @ ServerNonce responseHeader)
             in case box_Open w encryptedResponse nonce (ServerPublicKey bincertFields) clientSK of
               None \<Rightarrow> Inl (Error DecryptError)
             | Some dnsResponse \<Rightarrow>
                 (case removePadding dnsResponse of
                    Inl f \<Rightarrow> Inl f
                  | Inr unpadded \<Rightarrow>
                      (case Unpack w unpadded of
                         Inl e \<Rightarrow> Inl (Error e)
                       | Inr responseMsg \<Rightarrow> Inr responseMsg)))))"

definition ExchangeEncrypted ::
  "'msg collaborators \<Rightarrow> 'msg \<Rightarrow> SignedBincertFields \<Rightarrow> failure + 'msg" where
  "ExchangeEncrypted w msg bincertFields =
     (case send_query w msg bincertFields of
        Inl f \<Rightarrow> Inl f
      | Inr (clientSK, nonce, sent) \<Rightarrow> receive_reply w bincertFields clientSK nonce sent)"

section \<open>Auxiliary definitions for the proofs\<close>

text \<open>
  The decoding of \<^verbatim>\<open>unpackTXT\<close> as a recursion over the input that is left, with no
  buffer and no indices: \<open>None\<close> stands for the invalid escape. The loop is proved to
  compute it (\<open>unpackTXT_loop_refines\<close>).
\<close>

function txt_decode :: "byte list \<Rightarrow> byte list option" where
  "txt_decode [] = Some []"
| "txt_decode (c # cs) =
     (if c \<noteq> 0x5C then map_option ((#) c) (txt_decode cs)
      else if cs = [] then Some []
      else if 3 \<le> length cs \<and> IsDigit (cs ! 0) \<and> IsDigit (cs ! 1) \<and> IsDigit (cs ! 2)
        then map_option ((#) (word_of_nat (100 * (unat (cs ! 0) - 48) + 10 * (unat (cs ! 1) - 48)
                                           + (unat (cs ! 2) - 48))))
               (txt_decode (drop 3 cs))
      else if cs ! 0 = 0x6E then map_option ((#) 0x0A) (txt_decode (drop 1 cs))
      else if cs ! 0 = 0x74 then map_option ((#) 0x09) (txt_decode (drop 1 cs))
      else if cs ! 0 = 0x72 then map_option ((#) 0x0D) (txt_decode (drop 1 cs))
      else None)"
  by pat_completeness auto
termination
  by (relation "measure length") auto

definition refines :: "byte list \<Rightarrow> byte list \<Rightarrow> nat \<Rightarrow> nat \<Rightarrow> bool" where
  "refines txt buf i j =
     (case txt_decode (drop j txt) of
        Some out \<Rightarrow> unpackTXT_loop txt buf i j = Inr (take i buf @ out, None)
      | None \<Rightarrow> (\<exists>buf'. length buf' = length txt
                   \<and> unpackTXT_loop txt buf i j = Inr (buf', Some InvalidEscape)))"

section \<open>Sample inputs\<close>

text \<open>
  Certificates as they stand in a TXT answer (no byte needs escaping): magic, major and
  minor version, 64 signature bytes, and 52 signed bytes that end in the two timestamps.
\<close>

definition cert_v1 :: "byte list" where
  "cert_v1 = [0x44, 0x4E, 0x53, 0x43, 0x00, 0x01, 0x00, 0x00] @ replicate 64 0x41
             @ replicate 44 0x42 @ [0, 0, 0, 1, 0, 0, 0, 9]"

definition cert_v1' :: "byte list" where
  "cert_v1' = [0x44, 0x4E, 0x53, 0x43, 0x00, 0x01, 0x00, 0x00] @ replicate 64 0x45
             @ replicate 44 0x46 @ [0, 0, 0, 2, 0, 0, 0, 8]"

definition cert_v2 :: "byte list" where
  "cert_v2 = [0x44, 0x4E, 0x53, 0x43, 0x00, 0x02, 0x00, 0x00] @ replicate 64 0x43
             @ replicate 44 0x44 @ [0, 0, 0, 1, 0, 0, 0, 9]"

text \<open>The same as \<open>cert_v1\<close>, with \<open>XXXX\<close> where the magic stands.\<close>

definition cert_no_magic :: "byte list" where
  "cert_no_magic = [0x58, 0x58, 0x58, 0x58, 0x00, 0x01, 0x00, 0x00] @ replicate 64 0x41
             @ replicate 44 0x42 @ [0, 0, 0, 1, 0, 0, 0, 9]"

text \<open>
  Collaborators for one exchange whose messages are byte lists: the client nonce drawn
  is twelve times \<open>0x11\<close>, the padding draw is 2, the box puts sixteen tag bytes in front
  of the message and takes them off again under any nonce, and the connection answers
  with \<open>reply\<close>.
\<close>

definition sample_collaborators :: "byte list \<Rightarrow> (byte list) collaborators" where
  "sample_collaborators reply =
     \<lparr>rand_Read = Inr (replicate 12 0x11),
      box_GenerateKey = Inr (replicate 32 0x22, replicate 32 0x33),
      PackBuffer = (\<lambda>m. Inr m),
      rand_Int = Inr 2,
      box_Seal = (\<lambda>message nonce peersPublicKey privateKey. replicate 16 0xFF @ message),
      net_Dial = None,
      conn_Read = (\<lambda>sent. Inr reply),
      box_Open = (\<lambda>boxed nonce peersPublicKey privateKey.
                    if 16 \<le> length boxed then Some (drop 16 boxed) else None),
      Unpack = (\<lambda>b. Inr b)\<rparr>"

definition sample_fields :: SignedBincertFields where
  "sample_fields = \<lparr>ServerPublicKey = replicate 32 0x42, MagicQuery = replicate 8 0x42,
                     Serial = replicate 4 0x42, TSBegin = 1, TSEnd = 9\<rparr>"

section \<open>Padding codec: properties\<close>

lemma TrimRight_marker:
  "TrimRight (b @ 0x80 # replicate n 0) [0] = b @ [0x80]"
proof -
  have "dropWhile (\<lambda>b. b = (0 :: byte)) (replicate n 0 @ 0x80 # rev b) = 0x80 # rev b"
    by (induction n) simp_all
  then show ?thesis
    by (simp add: TrimRight_def)
qed

lemma TrimRight_zeros: "TrimRight (replicate n 0) [0] = []"
proof -
  have "dropWhile (\<lambda>b. b = (0 :: byte)) (replicate n 0) = []"
    by (induction n) simp_all
  then show ?thesis
    by (simp add: TrimRight_def)
qed

lemma addPadding_nonzero:
  assumes "1 \<le> n" "n \<le> 254"
  shows "addPadding (Inr n) b = Inr (b @ 0x80 # replicate (nat n - 1) 0)"
proof -
  have u: "unat (word_of_int n :: byte) = nat n"
    using assms by (simp add: unat_eq_nat_uint uint_word_of_int take_bit_int_eq_self)
  obtain k where k: "nat n = Suc k"
    using assms by (cases "nat n") auto
  show ?thesis
    by (simp add: addPadding_def Let_def u k)
qed

lemma removePadding_marker:
  "removePadding (b @ 0x80 # replicate n 0) = Inr b"
  by (simp add: removePadding_def TrimRight_marker)

text \<open>
  The part of the invalid-padding contract the code does meet: when a byte other than
  \<open>0x80\<close> is left at the end after the zeros are stripped, the error value is returned.
\<close>

lemma removePadding_invalid:
  assumes "TrimRight padded [0] \<noteq> []" "last (TrimRight padded [0]) \<noteq> 0x80"
  shows "removePadding padded = Inl (Error InvalidPadding)"
  using assms by (simp add: removePadding_def Let_def last_conv_nth)

text \<open>
  Claim C2. The claim says that a draw of zero makes \<open>addPadding\<close> return its input
  unchanged and without error. In the code the slice \<open>padding\<close> is then empty and the
  assignment \<^verbatim>\<open>padding[0] = 0x80\<close> panics: for every input, a zero draw ends in an
  index-out-of-range panic and nothing is returned.
\<close>

theorem addPadding_zero_draw_panics:
  "addPadding (Inr 0) unpadded = Inl (Panic IndexOutOfRange)"
  by (simp add: addPadding_def)

text \<open>
  Claim C3. The claim says that an input that is empty after the trailing zeros are
  stripped (an empty or all-zero input) gets the invalid-padding error. In the code the
  read of \<^verbatim>\<open>unpadded[len(unpadded)-1]\<close> panics on such an input: for every number of
  zero bytes, zero included, \<open>removePadding\<close> ends in an index-out-of-range panic.
\<close>

theorem removePadding_all_zero_panics:
  "removePadding (replicate n 0) = Inl (Panic IndexOutOfRange)"
  by (simp add: removePadding_def TrimRight_zeros)

text \<open>
  Claim C4. Padding round trip: for every byte sequence \<open>b\<close> and every drawn padding
  length \<open>n\<close> from 1 to 254, \<open>addPadding\<close> returns \<open>b\<close> followed by \<open>0x80\<close> and
  \<open>n - 1\<close> zero bytes, and \<open>removePadding\<close> of that returns exactly \<open>b\<close>, whatever
  \<open>b\<close> ends in.
\<close>

theorem padding_round_trip:
  assumes "1 \<le> n" "n \<le> 254"
  shows "addPadding (Inr n) b = Inr (b @ 0x80 # replicate (nat n - 1) 0)
       \<and> removePadding (b @ 0x80 # replicate (nat n - 1) 0) = Inr b"
  using assms by (simp add: addPadding_nonzero removePadding_marker)

theorem padding_round_trip_witness:
  "addPadding (Inr 3) [7, 0x80, 0, 0] = Inr [7, 0x80, 0, 0, 0x80, 0, 0]
 \<and> removePadding [7, 0x80, 0, 0, 0x80, 0, 0] = Inr [7, 0x80, 0, 0]
 \<and> addPadding (Inr 254) [] = Inr (0x80 # replicate 253 0)
 \<and> removePadding (0x80 # replicate 253 0) = Inr []"
  using padding_round_trip [of 3 "[7, 0x80, 0, 0]"] padding_round_trip [of 254 "[]"]
  by (simp add: numeral_3_eq_3)

section \<open>Text unescape codec: properties\<close>

lemma IsDigit_uint: "IsDigit a \<Longrightarrow> 48 \<le> uint a \<and> uint a \<le> 57"
  by (simp add: IsDigit_def word_le_def)

lemma IsDigit_unat: "IsDigit a \<Longrightarrow> 48 \<le> unat a \<and> unat a \<le> 57"
  by (simp add: IsDigit_def word_le_nat_alt)

lemma IsDigit_sub: "IsDigit a \<Longrightarrow> uint (a - 0x30) = int (unat a - 48)"
proof -
  assume d: "IsDigit a"
  have "uint (a - 0x30) = uint a - 48"
    using IsDigit_uint [OF d] by (simp add: uint_sub_if')
  also have "\<dots> = int (unat a - 48)"
    using IsDigit_unat [OF d] by (simp add: of_nat_diff)
  finally show ?thesis .
qed

lemma IsDigit_not_sign: "IsDigit a \<Longrightarrow> a \<noteq> 0x2D \<and> a \<noteq> 0x2B"
  by (auto simp: IsDigit_def)

text \<open>On three digits \<^verbatim>\<open>strconv.Atoi\<close> cannot fail: the error branch after it is dead.\<close>

lemma Atoi_three_digits:
  assumes "IsDigit a" "IsDigit b" "IsDigit c"
  shows "Atoi [a, b, c] = Inr (int (100 * (unat a - 48) + 10 * (unat b - 48) + (unat c - 48)))"
proof -
  define x y z where xyz: "x = unat a - 48" "y = unat b - 48" "z = unat c - 48"
  have bound: "x \<le> 9" "y \<le> 9" "z \<le> 9"
    using assms IsDigit_unat [of a] IsDigit_unat [of b] IsDigit_unat [of c]
    unfolding xyz by linarith+
  have val: "foldl (\<lambda>n ch. n * 10 + uint (ch - 0x30)) 0 [a, b, c] = int (100 * x + 10 * y + z)"
    using assms by (simp add: IsDigit_sub xyz)
  have small: "\<not> (2 ^ 63 \<le> int (100 * x + 10 * y + z))"
    using bound by simp
  have sign: "a \<noteq> 0x2D" "a \<noteq> 0x2B"
    using assms(1) IsDigit_not_sign by blast+
  show ?thesis
    unfolding Atoi_def Let_def xyz [symmetric]
    using assms sign val small by (simp add: xyz [symmetric])
qed

lemma not_digit_ntr: "\<not> IsDigit 0x6E" "\<not> IsDigit 0x74" "\<not> IsDigit 0x72"
  by (simp_all add: IsDigit_def)

lemma take_Suc_update:
  "i < length buf \<Longrightarrow> take (Suc i) (buf[i := v]) = take i buf @ [v]"
  by (simp add: take_Suc_conv_app_nth)

lemma txt_decode_length: "txt_decode s = Some out \<Longrightarrow> length out \<le> length s"
proof (induction s arbitrary: out rule: txt_decode.induct)
  case 1
  then show ?case by simp
next
  case (2 c cs)
  then show ?case
    by (fastforce split: if_splits)
qed

lemma refines_step:
  assumes "j < length tx" "i < length buf" "j < j'" "j' \<le> length tx"
    and body: "unpackTXT_body tx buf i j = Next (buf[i := v]) j'"
    and dec: "txt_decode (drop j tx) = map_option ((#) v) (txt_decode (drop j' tx))"
    and len: "length buf = length tx"
    and IH: "refines tx (buf[i := v]) (i + 1) j'"
  shows "refines tx buf i j"
proof (cases "txt_decode (drop j' tx)")
  case None
  then show ?thesis
    using IH assms(1) body dec len
    by (simp add: refines_def)
next
  case (Some out)
  then show ?thesis
    using IH assms(1,2) body dec
    by (simp add: refines_def take_Suc_update)
qed

lemma unpackTXT_loop_refines:
  "i \<le> j \<Longrightarrow> j \<le> length tx \<Longrightarrow> length buf = length tx \<Longrightarrow> refines tx buf i j"
proof (induction tx buf i j rule: unpackTXT_loop.induct)
  case (1 tx buf i j)
  show ?case
  proof (cases "j < length tx")
    case False
    with "1.prems" show ?thesis
      by (simp add: refines_def slice_to_def)
  next
    case True
    then have d: "drop j tx = tx ! j # drop (Suc j) tx"
      by (simp add: Cons_nth_drop_Suc)
    have i: "i < length buf"
      using True "1.prems" by simp
    have e2: "j + 2 = Suc (Suc j)" and e3: "j + 3 = Suc (Suc (Suc j))"
      and e4: "j + 4 = Suc (Suc (Suc (Suc j)))"
      by simp_all
    show ?thesis
    proof (cases "tx ! j = 0x5C")
      case False
      have body: "unpackTXT_body tx buf i j = Next (buf[i := tx ! j]) (j + 1)"
        using False i by (simp add: unpackTXT_body_def assign_def)
      have "refines tx (buf[i := tx ! j]) (i + 1) (j + 1)"
        using "1.IH" [OF True body] "1.prems" True by simp
      then show ?thesis
        using refines_step [OF True i _ _ body] True False d "1.prems" by simp
    next
      case bs: True
      show ?thesis
      proof (cases "j + 1 = length tx")
        case True
        then have "drop (Suc j) tx = []" by simp
        then show ?thesis
          using bs d True \<open>j < length tx\<close> i
          by (simp add: refines_def unpackTXT_body_def slice_to_def)
      next
        case False
        then have j1: "j + 1 < length tx" using True by simp
        then have d1: "drop (Suc j) tx = tx ! (j + 1) # drop (j + 2) tx"
          using Cons_nth_drop_Suc [of "Suc j" tx] by simp
        let ?cs = "drop (Suc j) tx"
        have cs0: "?cs ! 0 = tx ! (j + 1)" using d1 by simp
        have csne: "?cs \<noteq> []" using d1 by simp
        show ?thesis
        proof (cases "j + 1 + 2 < length tx \<and> IsDigit (tx ! (j + 1)) \<and> IsDigit (tx ! (j + 2)) \<and> IsDigit (tx ! (j + 3))")
          case ddd: True
          let ?v = "word_of_nat (100 * (unat (tx ! (j + 1)) - 48) + 10 * (unat (tx ! (j + 2)) - 48) + (unat (tx ! (j + 3)) - 48)) :: byte"
          have d2: "drop (j + 2) tx = tx ! (j + 2) # drop (j + 3) tx"
            using ddd Cons_nth_drop_Suc [of "j + 2" tx] by (simp add: eval_nat_numeral)
          have d3: "drop (j + 3) tx = tx ! (j + 3) # drop (j + 4) tx"
            using ddd Cons_nth_drop_Suc [of "j + 3" tx] by (simp add: eval_nat_numeral)
          have t3: "take 3 (drop (j + 1) tx) = [tx ! (j + 1), tx ! (j + 2), tx ! (j + 3)]"
            using d1 d2 d3 by (simp add: eval_nat_numeral)
          have body: "unpackTXT_body tx buf i j = Next (buf[i := ?v]) (j + 4)"
            using bs False ddd i t3 Atoi_three_digits [of "tx ! (j + 1)" "tx ! (j + 2)" "tx ! (j + 3)"]
            by (simp add: unpackTXT_body_def assign_def Let_def add.commute eval_nat_numeral)
          have lt: "j + 3 < length tx" using ddd by linarith
          have len3: "3 \<le> length ?cs" using lt by simp
          have nths: "?cs ! 1 = tx ! (j + 2)" "?cs ! 2 = tx ! (j + 3)"
            using lt by (simp_all add: e2 e3)
          have dec: "txt_decode (drop j tx) = map_option ((#) ?v) (txt_decode (drop (j + 4) tx))"
            using bs csne len3 cs0 nths ddd unfolding d
            by (simp add: eval_nat_numeral add.commute)
          have "refines tx (buf[i := ?v]) (i + 1) (j + 4)"
            using "1.IH" [OF True body] "1.prems" ddd by simp
          then show ?thesis
            using refines_step [OF True i _ _ body dec] ddd "1.prems" by simp
        next
          case noddd: False
          then have nod: "\<not> (3 \<le> length ?cs \<and> IsDigit (?cs ! 0) \<and> IsDigit (?cs ! 1) \<and> IsDigit (?cs ! 2))"
            using j1 by (auto simp: eval_nat_numeral)
          have nod': "\<not> (j + 1 + 2 < length tx \<and> IsDigit (tx ! (j + 1)) \<and> IsDigit (tx ! (j + 1 + 1)) \<and> IsDigit (tx ! (j + 1 + 2)))"
            using noddd by (simp add: eval_nat_numeral)
          consider (n) "tx ! (j + 1) = 0x6E" | (t) "tx ! (j + 1) = 0x74" | (r) "tx ! (j + 1) = 0x72"
            | (other) "tx ! (j + 1) \<noteq> 0x6E" "tx ! (j + 1) \<noteq> 0x74" "tx ! (j + 1) \<noteq> 0x72"
            by blast
          then show ?thesis
          proof cases
            case n
            have body: "unpackTXT_body tx buf i j = Next (buf[i := 0x0A]) (j + 2)"
              using bs False i n by (simp add: unpackTXT_body_def assign_def Let_def not_digit_ntr)
            have dec: "txt_decode (drop j tx) = map_option ((#) 0x0A) (txt_decode (drop (j + 2) tx))"
              using bs csne cs0 n unfolding d by (simp add: not_digit_ntr)
            have "refines tx (buf[i := 0x0A]) (i + 1) (j + 2)"
              using "1.IH" [OF True body] "1.prems" j1 by simp
            then show ?thesis
              using refines_step [OF True i _ _ body dec] j1 "1.prems" by simp
          next
            case t
            have body: "unpackTXT_body tx buf i j = Next (buf[i := 0x09]) (j + 2)"
              using bs False i t by (simp add: unpackTXT_body_def assign_def Let_def not_digit_ntr)
            have dec: "txt_decode (drop j tx) = map_option ((#) 0x09) (txt_decode (drop (j + 2) tx))"
              using bs csne cs0 t unfolding d by (simp add: not_digit_ntr)
            have "refines tx (buf[i := 0x09]) (i + 1) (j + 2)"
              using "1.IH" [OF True body] "1.prems" j1 by simp
            then show ?thesis
              using refines_step [OF True i _ _ body dec] j1 "1.prems" by simp
          next
            case r
            have body: "unpackTXT_body tx buf i j = Next (buf[i := 0x0D]) (j + 2)"
              using bs False i r by (simp add: unpackTXT_body_def assign_def Let_def not_digit_ntr)
            have dec: "txt_decode (drop j tx) = map_option ((#) 0x0D) (txt_decode (drop (j + 2) tx))"
              using bs csne cs0 r unfolding d by (simp add: not_digit_ntr)
            have "refines tx (buf[i := 0x0D]) (i + 1) (j + 2)"
              using "1.IH" [OF True body] "1.prems" j1 by simp
            then show ?thesis
              using refines_step [OF True i _ _ body dec] j1 "1.prems" by simp
          next
            case other
            have body: "unpackTXT_body tx buf i j = Return buf InvalidEscape"
              using bs False nod' other by (auto simp: unpackTXT_body_def Let_def)
            have dec: "txt_decode (drop j tx) = None"
              using bs csne nod cs0 other unfolding d by auto
            show ?thesis
              using body dec True "1.prems" by (simp add: refines_def)
          qed
        qed
      qed
    qed
  qed
qed

lemma unpackTXT_Some:
  "txt_decode s = Some out \<Longrightarrow> unpackTXT s = Inr (out, None)"
  using unpackTXT_loop_refines [of 0 0 s "replicate (length s) 0"]
  by (simp add: refines_def unpackTXT_def)

lemma unpackTXT_None:
  "txt_decode s = None \<Longrightarrow>
     \<exists>buf. length buf = length s \<and> unpackTXT s = Inr (buf, Some InvalidEscape)"
  using unpackTXT_loop_refines [of 0 0 s "replicate (length s) 0"]
  by (simp add: refines_def unpackTXT_def)

lemma unpackTXT_ok_iff:
  "unpackTXT s = Inr (out, None) \<longleftrightarrow> txt_decode s = Some out"
proof (cases "txt_decode s")
  case None
  then show ?thesis using unpackTXT_None [of s] by auto
next
  case (Some a)
  then show ?thesis using unpackTXT_Some [of s a] by auto
qed

lemma unpackTXT_total:
  "\<exists>buf e. unpackTXT s = Inr (buf, e) \<and> length buf \<le> length s"
proof (cases "txt_decode s")
  case None
  then show ?thesis using unpackTXT_None [of s] by auto
next
  case (Some a)
  then show ?thesis using unpackTXT_Some [of s a] txt_decode_length [of s a] by auto
qed

lemma txt_decode_plain:
  "0x5C \<notin> set pre \<Longrightarrow> txt_decode s = Some out \<Longrightarrow> txt_decode (pre @ s) = Some (pre @ out)"
  by (induction pre) simp_all

lemma unpackTXT_plain: "0x5C \<notin> set s \<Longrightarrow> unpackTXT s = Inr (s, None)"
  using txt_decode_plain [of s "[]" "[]"] by (simp add: unpackTXT_ok_iff)

lemma unpackTXT_fails_iff:
  "(\<exists>buf. unpackTXT s = Inr (buf, Some InvalidEscape)) \<longleftrightarrow> txt_decode s = None"
proof (cases "txt_decode s")
  case None
  then show ?thesis using unpackTXT_None [of s] by auto
next
  case (Some a)
  then show ?thesis using unpackTXT_Some [of s a] by auto
qed

text \<open>
  Claim C8. For every input \<open>unpackTXT\<close> returns, and the slice it returns is never
  longer than the input. The empty input decodes to the empty output, and an input with
  no backslash to itself. Where the rest of the input decodes to \<open>out\<close>: a backslash and
  three ASCII digits in front of it decode to one byte in front of \<open>out\<close>, whose value
  is the decimal value of the digits modulo 256 (the assignment narrows with
  \<^verbatim>\<open>byte(byteVal)\<close>), so the byte with that value when it is at most 255; a backslash
  and \<open>n\<close>, \<open>t\<close> or \<open>r\<close> decode to newline, tab or carriage return; any other byte
  but the backslash is copied. Where the rest of the input fails with the invalid-escape
  error, so does the input with any of these in front. A backslash followed by a
  character that is none of \<open>n\<close>, \<open>t\<close>, \<open>r\<close> and does not start three digits returns
  the invalid-escape error. A backslash that is the last byte of the input, after bytes
  that are copied, ends the output there with no error.
\<close>

theorem unpackTXT_escapes:
  "unpackTXT [] = Inr ([], None)
 \<and> (0x5C \<notin> set plain \<longrightarrow> unpackTXT plain = Inr (plain, None))
 \<and> (unpackTXT rest = Inr (out, None) \<longrightarrow>
      (IsDigit a \<and> IsDigit b \<and> IsDigit c \<longrightarrow>
         (\<exists>v. unpackTXT (0x5C # a # b # c # rest) = Inr (v # out, None)
            \<and> unat v = (100 * (unat a - 48) + 10 * (unat b - 48) + (unat c - 48)) mod 256
            \<and> (100 * (unat a - 48) + 10 * (unat b - 48) + (unat c - 48) \<le> 255 \<longrightarrow>
                 unat v = 100 * (unat a - 48) + 10 * (unat b - 48) + (unat c - 48))))
    \<and> unpackTXT (0x5C # 0x6E # rest) = Inr (0x0A # out, None)
    \<and> unpackTXT (0x5C # 0x74 # rest) = Inr (0x09 # out, None)
    \<and> unpackTXT (0x5C # 0x72 # rest) = Inr (0x0D # out, None)
    \<and> (p \<noteq> 0x5C \<longrightarrow> unpackTXT (p # rest) = Inr (p # out, None)))
 \<and> ((\<exists>buf. unpackTXT rest = Inr (buf, Some InvalidEscape)) \<longrightarrow>
      (IsDigit a \<and> IsDigit b \<and> IsDigit c \<longrightarrow>
         (\<exists>buf. unpackTXT (0x5C # a # b # c # rest) = Inr (buf, Some InvalidEscape)))
    \<and> (\<exists>buf. unpackTXT (0x5C # 0x6E # rest) = Inr (buf, Some InvalidEscape))
    \<and> (\<exists>buf. unpackTXT (0x5C # 0x74 # rest) = Inr (buf, Some InvalidEscape))
    \<and> (\<exists>buf. unpackTXT (0x5C # 0x72 # rest) = Inr (buf, Some InvalidEscape))
    \<and> (p \<noteq> 0x5C \<longrightarrow> (\<exists>buf. unpackTXT (p # rest) = Inr (buf, Some InvalidEscape))))
 \<and> (x \<noteq> 0x6E \<and> x \<noteq> 0x74 \<and> x \<noteq> 0x72
      \<and> \<not> (IsDigit x \<and> 2 \<le> length after \<and> IsDigit (after ! 0) \<and> IsDigit (after ! 1)) \<longrightarrow>
      (\<exists>buf. unpackTXT (0x5C # x # after) = Inr (buf, Some InvalidEscape)))
 \<and> (0x5C \<notin> set pre \<longrightarrow> unpackTXT (pre @ [0x5C]) = Inr (pre, None))
 \<and> (\<exists>buf e. unpackTXT s = Inr (buf, e) \<and> length buf \<le> length s)"
proof -
  have empty: "unpackTXT [] = Inr ([], None)"
    by (simp add: unpackTXT_ok_iff)
  have copied: "0x5C \<notin> set plain \<longrightarrow> unpackTXT plain = Inr (plain, None)"
    using unpackTXT_plain by blast
  have ddd: "\<exists>v. unpackTXT (0x5C # a # b # c # rest) = Inr (v # out, None)
            \<and> unat v = (100 * (unat a - 48) + 10 * (unat b - 48) + (unat c - 48)) mod 256
            \<and> (100 * (unat a - 48) + 10 * (unat b - 48) + (unat c - 48) \<le> 255 \<longrightarrow>
                 unat v = 100 * (unat a - 48) + 10 * (unat b - 48) + (unat c - 48))"
    if "unpackTXT rest = Inr (out, None)" "IsDigit a" "IsDigit b" "IsDigit c"
  proof -
    define n where "n = 100 * (unat a - 48) + 10 * (unat b - 48) + (unat c - 48)"
    let ?v = "word_of_nat n :: byte"
    have "txt_decode (0x5C # a # b # c # rest) = Some (?v # out)"
      using that by (simp add: unpackTXT_ok_iff n_def)
    then have "unpackTXT (0x5C # a # b # c # rest) = Inr (?v # out, None)"
      by (rule unpackTXT_Some)
    moreover have m: "unat ?v = n mod 256"
      unfolding unat_of_nat by simp
    moreover have "n \<le> 255 \<longrightarrow> unat ?v = n"
      using m by simp
    ultimately show ?thesis
      unfolding n_def by blast
  qed
  have ntr: "unpackTXT (0x5C # 0x6E # rest) = Inr (0x0A # out, None)"
    "unpackTXT (0x5C # 0x74 # rest) = Inr (0x09 # out, None)"
    "unpackTXT (0x5C # 0x72 # rest) = Inr (0x0D # out, None)"
    if "unpackTXT rest = Inr (out, None)"
    using that by (simp_all add: unpackTXT_ok_iff not_digit_ntr)
  have plain: "unpackTXT (p # rest) = Inr (p # out, None)"
    if "unpackTXT rest = Inr (out, None)" "p \<noteq> 0x5C"
    using that by (simp add: unpackTXT_ok_iff)
  have ddd_fails: "\<exists>buf. unpackTXT (0x5C # a # b # c # rest) = Inr (buf, Some InvalidEscape)"
    if "\<exists>buf. unpackTXT rest = Inr (buf, Some InvalidEscape)" "IsDigit a" "IsDigit b" "IsDigit c"
    using that unfolding unpackTXT_fails_iff by simp
  have ntr_fails: "\<exists>buf. unpackTXT (0x5C # 0x6E # rest) = Inr (buf, Some InvalidEscape)"
    "\<exists>buf. unpackTXT (0x5C # 0x74 # rest) = Inr (buf, Some InvalidEscape)"
    "\<exists>buf. unpackTXT (0x5C # 0x72 # rest) = Inr (buf, Some InvalidEscape)"
    if "\<exists>buf. unpackTXT rest = Inr (buf, Some InvalidEscape)"
    using that unfolding unpackTXT_fails_iff by (simp_all add: not_digit_ntr)
  have plain_fails: "\<exists>buf. unpackTXT (p # rest) = Inr (buf, Some InvalidEscape)"
    if "\<exists>buf. unpackTXT rest = Inr (buf, Some InvalidEscape)" "p \<noteq> 0x5C"
    using that unfolding unpackTXT_fails_iff by simp
  have other: "\<exists>buf. unpackTXT (0x5C # x # after) = Inr (buf, Some InvalidEscape)"
    if "x \<noteq> 0x6E" "x \<noteq> 0x74" "x \<noteq> 0x72"
      "\<not> (IsDigit x \<and> 2 \<le> length after \<and> IsDigit (after ! 0) \<and> IsDigit (after ! 1))"
  proof -
    have "txt_decode (0x5C # x # after) = None"
      using that by (auto simp: eval_nat_numeral)
    then show ?thesis
      using unpackTXT_None by blast
  qed
  have lone: "unpackTXT (pre @ [0x5C]) = Inr (pre, None)" if "0x5C \<notin> set pre"
    using that txt_decode_plain [of pre "[0x5C]" "[]"] by (simp add: unpackTXT_ok_iff)
  have decoded: "unpackTXT rest = Inr (out, None) \<longrightarrow>
      (IsDigit a \<and> IsDigit b \<and> IsDigit c \<longrightarrow>
         (\<exists>v. unpackTXT (0x5C # a # b # c # rest) = Inr (v # out, None)
            \<and> unat v = (100 * (unat a - 48) + 10 * (unat b - 48) + (unat c - 48)) mod 256
            \<and> (100 * (unat a - 48) + 10 * (unat b - 48) + (unat c - 48) \<le> 255 \<longrightarrow>
                 unat v = 100 * (unat a - 48) + 10 * (unat b - 48) + (unat c - 48))))
    \<and> unpackTXT (0x5C # 0x6E # rest) = Inr (0x0A # out, None)
    \<and> unpackTXT (0x5C # 0x74 # rest) = Inr (0x09 # out, None)
    \<and> unpackTXT (0x5C # 0x72 # rest) = Inr (0x0D # out, None)
    \<and> (p \<noteq> 0x5C \<longrightarrow> unpackTXT (p # rest) = Inr (p # out, None))"
  proof (intro impI conjI)
    assume r: "unpackTXT rest = Inr (out, None)"
    show "unpackTXT (0x5C # 0x6E # rest) = Inr (0x0A # out, None)"
      "unpackTXT (0x5C # 0x74 # rest) = Inr (0x09 # out, None)"
      "unpackTXT (0x5C # 0x72 # rest) = Inr (0x0D # out, None)"
      using ntr [OF r] by simp_all
    show "unpackTXT (p # rest) = Inr (p # out, None)" if "p \<noteq> 0x5C"
      using plain [OF r that] .
    show "\<exists>v. unpackTXT (0x5C # a # b # c # rest) = Inr (v # out, None)
            \<and> unat v = (100 * (unat a - 48) + 10 * (unat b - 48) + (unat c - 48)) mod 256
            \<and> (100 * (unat a - 48) + 10 * (unat b - 48) + (unat c - 48) \<le> 255 \<longrightarrow>
                 unat v = 100 * (unat a - 48) + 10 * (unat b - 48) + (unat c - 48))"
      if "IsDigit a \<and> IsDigit b \<and> IsDigit c"
      using ddd [OF r] that by blast
  qed
  have failed: "(\<exists>buf. unpackTXT rest = Inr (buf, Some InvalidEscape)) \<longrightarrow>
      (IsDigit a \<and> IsDigit b \<and> IsDigit c \<longrightarrow>
         (\<exists>buf. unpackTXT (0x5C # a # b # c # rest) = Inr (buf, Some InvalidEscape)))
    \<and> (\<exists>buf. unpackTXT (0x5C # 0x6E # rest) = Inr (buf, Some InvalidEscape))
    \<and> (\<exists>buf. unpackTXT (0x5C # 0x74 # rest) = Inr (buf, Some InvalidEscape))
    \<and> (\<exists>buf. unpackTXT (0x5C # 0x72 # rest) = Inr (buf, Some InvalidEscape))
    \<and> (p \<noteq> 0x5C \<longrightarrow> (\<exists>buf. unpackTXT (p # rest) = Inr (buf, Some InvalidEscape)))"
    using ddd_fails ntr_fails plain_fails by (intro impI conjI) simp_all
  have invalid: "x \<noteq> 0x6E \<and> x \<noteq> 0x74 \<and> x \<noteq> 0x72
      \<and> \<not> (IsDigit x \<and> 2 \<le> length after \<and> IsDigit (after ! 0) \<and> IsDigit (after ! 1)) \<longrightarrow>
      (\<exists>buf. unpackTXT (0x5C # x # after) = Inr (buf, Some InvalidEscape))"
    using other by (intro impI) simp
  have trailing: "0x5C \<notin> set pre \<longrightarrow> unpackTXT (pre @ [0x5C]) = Inr (pre, None)"
    using lone by simp
  show ?thesis
    by (rule conjI [OF empty conjI [OF copied conjI [OF decoded conjI [OF failed
          conjI [OF invalid conjI [OF trailing unpackTXT_total]]]]]])
qed

theorem unpackTXT_escapes_witness:
  "unpackTXT [] = Inr ([], None)
 \<and> unpackTXT [0x74, 0x65, 0x73, 0x74] = Inr ([0x74, 0x65, 0x73, 0x74], None)
 \<and> unpackTXT [0x5C, 0x31, 0x31, 0x36, 0x5C, 0x31, 0x30, 0x31, 0x5C, 0x31, 0x31, 0x35,
               0x5C, 0x31, 0x31, 0x36]
     = Inr ([0x74, 0x65, 0x73, 0x74], None)
 \<and> unpackTXT [0x5C, 0x6E, 0x5C, 0x74, 0x5C, 0x72] = Inr ([0x0A, 0x09, 0x0D], None)
 \<and> unpackTXT [0x41, 0x5C, 0x6E] = Inr ([0x41, 0x0A], None)
 \<and> (\<exists>buf. unpackTXT [0x5C, 0x78] = Inr (buf, Some InvalidEscape))
 \<and> (\<exists>buf. unpackTXT [0x5C, 0x31, 0x32] = Inr (buf, Some InvalidEscape))
 \<and> (\<exists>buf. unpackTXT [0x41, 0x5C, 0x6E, 0x5C, 0x31, 0x31, 0x36, 0x5C, 0x78]
              = Inr (buf, Some InvalidEscape))
 \<and> unpackTXT [0x41, 0x5C] = Inr ([0x41], None)
 \<and> (\<exists>buf e. unpackTXT [0x5C, 0x39, 0x39] = Inr (buf, e)
        \<and> length buf \<le> length [0x5C, 0x39, 0x39 :: byte])"
proof -
  note T = unpackTXT_escapes
  have byte_of: "v = word_of_nat n" if "unat v = n" for v :: byte and n
  proof -
    have "word_of_nat (unat v) = v"
      by simp
    then show ?thesis
      using that by simp
  qed
  have empty: "unpackTXT [] = Inr ([], None)"
    using T [where plain = "[]" and rest = "[]" and out = "[]" and a = 0 and b = 0 and c = 0
        and p = 0 and x = 0 and after = "[]" and pre = "[]" and s = "[]"]
    by (rule conjunct1)
  have copied: "unpackTXT [0x74, 0x65, 0x73, 0x74] = Inr ([0x74, 0x65, 0x73, 0x74], None)"
    using T [where plain = "[0x74, 0x65, 0x73, 0x74]" and rest = "[]" and out = "[]" and a = 0
        and b = 0 and c = 0 and p = 0 and x = 0 and after = "[]" and pre = "[]" and s = "[]"]
    by simp
  have n: "unpackTXT (0x5C # 0x6E # rest) = Inr (0x0A # out, None)"
    and t: "unpackTXT (0x5C # 0x74 # rest) = Inr (0x09 # out, None)"
    and r: "unpackTXT (0x5C # 0x72 # rest) = Inr (0x0D # out, None)"
    and A: "unpackTXT (0x41 # rest) = Inr (0x41 # out, None)"
    if "unpackTXT rest = Inr (out, None)" for rest out
    using that T [where plain = "[]" and rest = rest and out = out and a = 0 and b = 0 and c = 0
        and p = "0x41" and x = 0 and after = "[]" and pre = "[]" and s = "[]"]
    by simp_all
  have ddd: "unpackTXT (0x5C # a # b # c # rest)
               = Inr (word_of_nat (100 * (unat a - 48) + 10 * (unat b - 48) + (unat c - 48)) # out, None)"
    if h: "unpackTXT rest = Inr (out, None)" "IsDigit a" "IsDigit b" "IsDigit c"
      "100 * (unat a - 48) + 10 * (unat b - 48) + (unat c - 48) \<le> 255" for rest out a b c
  proof -
    obtain v where v: "unpackTXT (0x5C # a # b # c # rest) = Inr (v # out, None)"
      "unat v = 100 * (unat a - 48) + 10 * (unat b - 48) + (unat c - 48)"
      using h T [where plain = "[]" and rest = rest and out = out and a = a and b = b and c = c
        and p = 0 and x = 0 and after = "[]" and pre = "[]" and s = "[]"]
      by blast
    show ?thesis
      using v(1) byte_of [OF v(2)] by simp
  qed
  have d: "IsDigit 0x30" "IsDigit 0x31" "IsDigit 0x32" "IsDigit 0x35" "IsDigit 0x36"
    by (simp_all add: IsDigit_def)
  have t4: "unpackTXT [0x5C, 0x31, 0x31, 0x36] = Inr ([0x74], None)"
    using ddd [OF empty d(2) d(2) d(5)] by simp
  have t3: "unpackTXT [0x5C, 0x31, 0x31, 0x35, 0x5C, 0x31, 0x31, 0x36] = Inr ([0x73, 0x74], None)"
    using ddd [OF t4 d(2) d(2) d(4)] by simp
  have t2: "unpackTXT [0x5C, 0x31, 0x30, 0x31, 0x5C, 0x31, 0x31, 0x35, 0x5C, 0x31, 0x31, 0x36]
              = Inr ([0x65, 0x73, 0x74], None)"
    using ddd [OF t3 d(2) d(1) d(2)] by simp
  have test: "unpackTXT [0x5C, 0x31, 0x31, 0x36, 0x5C, 0x31, 0x30, 0x31, 0x5C, 0x31, 0x31, 0x35,
               0x5C, 0x31, 0x31, 0x36] = Inr ([0x74, 0x65, 0x73, 0x74], None)"
    using ddd [OF t2 d(2) d(2) d(5)] by simp
  have ntr: "unpackTXT [0x5C, 0x6E, 0x5C, 0x74, 0x5C, 0x72] = Inr ([0x0A, 0x09, 0x0D], None)"
    using n [OF t [OF r [OF empty]]] .
  have An: "unpackTXT [0x41, 0x5C, 0x6E] = Inr ([0x41, 0x0A], None)"
    using A [OF n [OF empty]] .
  have bad: "\<exists>buf. unpackTXT [0x5C, 0x78] = Inr (buf, Some InvalidEscape)"
    using T [where plain = "[]" and rest = "[]" and out = "[]" and a = 0 and b = 0 and c = 0
        and p = 0 and x = "0x78" and after = "[]" and pre = "[]" and s = "[]"]
    by simp
  have two_digits: "\<exists>buf. unpackTXT [0x5C, 0x31, 0x32] = Inr (buf, Some InvalidEscape)"
    using T [where plain = "[]" and rest = "[]" and out = "[]" and a = 0 and b = 0 and c = 0
        and p = 0 and x = "0x31" and after = "[0x32]" and pre = "[]" and s = "[]"]
    by simp
  have f1: "\<exists>buf. unpackTXT [0x5C, 0x31, 0x31, 0x36, 0x5C, 0x78] = Inr (buf, Some InvalidEscape)"
    using bad d T [where plain = "[]" and rest = "[0x5C, 0x78]" and out = "[]" and a = "0x31"
        and b = "0x31" and c = "0x36" and p = 0 and x = 0 and after = "[]" and pre = "[]" and s = "[]"]
    by simp
  have f2: "\<exists>buf. unpackTXT [0x5C, 0x6E, 0x5C, 0x31, 0x31, 0x36, 0x5C, 0x78]
                    = Inr (buf, Some InvalidEscape)"
    using f1 T [where plain = "[]" and rest = "[0x5C, 0x31, 0x31, 0x36, 0x5C, 0x78]" and out = "[]"
        and a = 0 and b = 0 and c = 0 and p = 0 and x = 0 and after = "[]" and pre = "[]"
        and s = "[]"]
    by simp
  have f3: "\<exists>buf. unpackTXT [0x41, 0x5C, 0x6E, 0x5C, 0x31, 0x31, 0x36, 0x5C, 0x78]
                    = Inr (buf, Some InvalidEscape)"
    using f2 T [where plain = "[]" and rest = "[0x5C, 0x6E, 0x5C, 0x31, 0x31, 0x36, 0x5C, 0x78]"
        and out = "[]" and a = 0 and b = 0 and c = 0 and p = "0x41" and x = 0 and after = "[]"
        and pre = "[]" and s = "[]"]
    by simp
  have lone: "unpackTXT [0x41, 0x5C] = Inr ([0x41], None)"
    using T [where plain = "[]" and rest = "[]" and out = "[]" and a = 0 and b = 0 and c = 0
        and p = 0 and x = 0 and after = "[]" and pre = "[0x41]" and s = "[]"]
    by simp
  have bound: "\<exists>buf e. unpackTXT [0x5C, 0x39, 0x39] = Inr (buf, e)
        \<and> length buf \<le> length [0x5C, 0x39, 0x39 :: byte]"
    using T [where plain = "[]" and rest = "[]" and out = "[]" and a = 0 and b = 0 and c = 0
        and p = 0 and x = 0 and after = "[]" and pre = "[]" and s = "[0x5C, 0x39, 0x39]"]
    by blast
  show ?thesis
    by (intro conjI) (rule empty copied test ntr An bad two_digits f3 lone bound)+
qed

text \<open>
  Three digits above 255 have no byte of their value: \<open>\999\<close> decodes, with no error,
  to the byte \<open>0xE7\<close> (999 modulo 256).
\<close>

theorem unpackTXT_999_counterexample:
  "unpackTXT [0x5C, 0x39, 0x39, 0x39] = Inr ([0xE7], None)
 \<and> \<not> (\<exists>v. unpackTXT [0x5C, 0x39, 0x39, 0x39] = Inr ([v], None) \<and> unat v = 999)"
proof -
  have e: "unpackTXT [0x5C, 0x39, 0x39, 0x39] = Inr ([0xE7], None)"
    by code_simp
  then show ?thesis
    by simp
qed

section \<open>Certificate resolver: properties\<close>

lemma nonneg_sint_uint: "0 \<le> sint (w :: 64 word) \<Longrightarrow> uint w = sint w"
  using uint_sint [of w] sint_lt [of w] by (simp add: take_bit_int_eq_self)

lemma small_uint_sint:
  assumes "uint (w :: 64 word) < 2 ^ 63"
  shows "sint w = uint w"
proof -
  have "- (2 ^ 63) \<le> uint w"
    by (rule order_trans [of _ 0]) simp_all
  then have "signed_take_bit 63 (uint w) = uint w"
    using assms by (rule signed_take_bit_int_eq_self)
  then show ?thesis
    using sint_uint [of w] by simp
qed

lemma uint_ucast_32_64: "uint (ucast (x :: 32 word) :: 64 word) = uint x"
  by (simp add: uint_up_ucast is_up)

lemma uint_32_bound: "uint (x :: 32 word) < 2 ^ 32"
  using uint_bounded [of x] by simp

lemma sint_ucast_32_64: "sint (ucast (x :: 32 word) :: 64 word) = uint x"
  using small_uint_sint [of "ucast x"] uint_32_bound [of x] by (simp add: uint_ucast_32_64)

lemma uint_ucast_plus1: "uint ((ucast (x :: 32 word) :: 64 word) + 1) = uint x + 1"
proof -
  have "uint (ucast x :: 64 word) + uint (1 :: 64 word) < 2 ^ LENGTH(64)"
    using uint_32_bound [of x] by (simp add: uint_ucast_32_64)
  then have "uint ((ucast x :: 64 word) + 1) = uint (ucast x :: 64 word) + uint (1 :: 64 word)"
    by (simp only: uint_add_lem)
  then show ?thesis by (simp add: uint_ucast_32_64)
qed

lemma sint_ucast_plus1: "sint ((ucast (x :: 32 word) :: 64 word) + 1) = uint x + 1"
  using small_uint_sint [of "ucast x + 1"] uint_32_bound [of x] by (simp add: uint_ucast_plus1)

lemma check_validity_cases:
  "check_validity f now =
     (if sint now < 0 then Inl (Error TimeTraveler)
      else if sint now < uint (TSBegin f) then Inl (Error NotYetValid)
      else if uint (TSEnd f) < sint now then Inl (Error NoLongerValid)
      else Inr f)"
proof (cases "0 \<le> sint now")
  case True
  then have u: "uint now = sint now" by (rule nonneg_sint_uint)
  have sle: "word_sle 0 now" using True by (simp add: word_sle_eq)
  show ?thesis
    using True sle u by (simp add: check_validity_def Let_def word_less_def uint_ucast_32_64)
next
  case False
  then have "\<not> word_sle 0 now" by (simp add: word_sle_eq)
  then show ?thesis using False by (simp add: check_validity_def)
qed

lemma unpackTXT_error_cases:
  "unpackTXT s = Inr (buf, Some e) \<Longrightarrow> e = InvalidEscape"
  using unpackTXT_None [of s] unpackTXT_Some [of s]
  by (cases "txt_decode s") auto

lemma unpackTXT_no_panic: "unpackTXT s \<noteq> Inl p"
  using unpackTXT_total [of s] by auto

lemma read_signedBincert_Inr:
  "read_signedBincert r = Inr c \<longleftrightarrow> 124 \<le> length r \<and> c = decode_signedBincert (take 124 r)"
  by (auto simp: read_signedBincert_def ReadFull_def)

lemma read_signedBincert_Inl:
  "read_signedBincert r = Inl e \<Longrightarrow> e = EOF \<or> e = ErrUnexpectedEOF"
  by (auto simp: read_signedBincert_def ReadFull_def split: if_splits)

lemma magic_check_never_fires: "5 \<le> length t \<Longrightarrow> take 5 t \<noteq> certificateMagic"
proof
  assume "5 \<le> length t" "take 5 t = certificateMagic"
  then have "length (take 5 t) = length certificateMagic" by simp
  then show False using \<open>5 \<le> length t\<close> by (simp add: certificateMagic_def)
qed

lemma parse_answer_TXT:
  assumes "5 \<le> length t" "unpackTXT t = Inr (u, None)" "124 \<le> length u"
  shows "parse_answer (TXT (t # ts)) = Inr (decode_signedBincert (take 124 u))"
  using assms magic_check_never_fires [of t]
  by (simp add: parse_answer_def read_signedBincert_def ReadFull_def)

lemma parse_answer_plain:
  assumes "0x5C \<notin> set t" "124 \<le> length t"
  shows "parse_answer (TXT (t # ts)) = Inr (decode_signedBincert (take 124 t))"
  using assms parse_answer_TXT [of t t ts] unpackTXT_plain [of t] by simp

lemma parse_answer_SignedData:
  assumes "parse_answer a = Inr c"
  shows "length (SignedData c) = 52"
proof (cases a)
  case OtherRR
  then show ?thesis using assms by (simp add: parse_answer_def)
next
  case (TXT ts)
  then obtain u where "read_signedBincert u = Inr c"
    using assms
    by (auto simp: parse_answer_def split: if_splits sum.splits prod.splits option.splits)
  then show ?thesis
    by (auto simp: read_signedBincert_Inr decode_signedBincert_def)
qed

lemma scan_answers_SignedData:
  "scan_answers answers b = Inr (Some c) \<Longrightarrow> (\<And>c0. b = Some c0 \<Longrightarrow> length (SignedData c0) = 52)
     \<Longrightarrow> length (SignedData c) = 52"
proof (induction answers arbitrary: b)
  case Nil
  then show ?case by simp
next
  case (Cons a answers)
  from Cons.prems(1) obtain p where p: "parse_answer a = Inr p"
    by (cases "parse_answer a") auto
  show ?case
  proof (cases "VersionMajor p = 1")
    case True
    then have "scan_answers answers (Some p) = Inr (Some c)"
      using Cons.prems(1) p by simp
    then show ?thesis
      using Cons.IH [of "Some p"] parse_answer_SignedData [OF p] by simp
  next
    case False
    then have "scan_answers answers None = Inr (Some c)"
      using Cons.prems(1) p by simp
    then show ?thesis
      using Cons.IH [of None] by simp
  qed
qed

lemma read_SignedBincertFields_52:
  "length d = 52 \<Longrightarrow> read_SignedBincertFields d = Inr (decode_SignedBincertFields d)"
  by (simp add: read_SignedBincertFields_def ReadFull_def)

text \<open>What the scan keeps is decided by the last answer alone, once every answer parses.\<close>

lemma scan_answers_last:
  assumes "list_all (\<lambda>a. \<exists>c. parse_answer a = Inr c) answers"
    and "parse_answer z = Inr c"
  shows "scan_answers (answers @ [z]) b = Inr (if VersionMajor c \<noteq> 1 then None else Some c)"
  using assms by (induction answers arbitrary: b) auto

lemma GetValidCert_scanned:
  assumes "answers \<noteq> []" "scan_answers answers None = Inr (Some c)"
  shows "GetValidCert (Inr answers) Verify providerKey now = verify_bincert Verify providerKey c now"
  using assms by (simp add: GetValidCert_def)

lemma verify_bincert_ok:
  assumes "length (SignedData c) = 52" "Verify providerKey (SignedData c) (Signature c)"
  shows "verify_bincert Verify providerKey c now
           = check_validity (decode_SignedBincertFields (SignedData c)) now"
  using assms by (simp add: verify_bincert_def read_SignedBincertFields_52)

lemma sample_plain:
  "0x5C \<notin> set cert_v1 \<and> length cert_v1 = 124"
  "0x5C \<notin> set cert_v1' \<and> length cert_v1' = 124"
  "0x5C \<notin> set cert_v2 \<and> length cert_v2 = 124"
  "0x5C \<notin> set cert_no_magic \<and> length cert_no_magic = 124"
  by (simp_all add: cert_v1_def cert_v1'_def cert_v2_def cert_no_magic_def)

lemma sample_parse:
  "parse_answer (TXT [cert_v1]) = Inr (decode_signedBincert cert_v1)"
  "parse_answer (TXT [cert_v1']) = Inr (decode_signedBincert cert_v1')"
  "parse_answer (TXT [cert_v2]) = Inr (decode_signedBincert cert_v2)"
  "parse_answer (TXT [cert_no_magic]) = Inr (decode_signedBincert cert_no_magic)"
  using sample_plain parse_answer_plain [of cert_v1 "[]"] parse_answer_plain [of cert_v1' "[]"]
    parse_answer_plain [of cert_v2 "[]"] parse_answer_plain [of cert_no_magic "[]"]
  by simp_all

lemma sample_version:
  "VersionMajor (decode_signedBincert cert_v1) = 1"
  "VersionMajor (decode_signedBincert cert_v1') = 1"
  "VersionMajor (decode_signedBincert cert_v2) = 2"
  "VersionMajor (decode_signedBincert cert_no_magic) = 1"
  by (simp_all add: decode_signedBincert_def BigEndian_Uint16_def cert_v1_def cert_v1'_def
      cert_v2_def cert_no_magic_def)

lemma sample_data:
  "SignedData (decode_signedBincert cert_v1) = replicate 44 0x42 @ [0, 0, 0, 1, 0, 0, 0, 9]"
  "SignedData (decode_signedBincert cert_v1') = replicate 44 0x46 @ [0, 0, 0, 2, 0, 0, 0, 8]"
  "SignedData (decode_signedBincert cert_no_magic) = replicate 44 0x42 @ [0, 0, 0, 1, 0, 0, 0, 9]"
  by (simp_all add: decode_signedBincert_def cert_v1_def cert_v1'_def cert_no_magic_def)

lemma sample_decode:
  "decode_SignedBincertFields (replicate 44 0x42 @ [0, 0, 0, 1, 0, 0, 0, 9])
     = \<lparr>ServerPublicKey = replicate 32 0x42, MagicQuery = replicate 8 0x42,
        Serial = replicate 4 0x42, TSBegin = 1, TSEnd = 9\<rparr>"
  by (simp add: decode_SignedBincertFields_def BigEndian_Uint32_def)

text \<open>
  Claim C1. The claim says that one version-1 and one version-2 certificate give the
  version-1 fields in either order. The code does so only when the version-2 answer comes
  first: when it comes last, the round that discards it sets \<^verbatim>\<open>bincert\<close> to \<^verbatim>\<open>nil\<close> and
  the version-1 certificate found before is lost; the call fails with "No certificate for
  supported crypto constructions found", whatever the key and the clock.
\<close>

theorem GetValidCert_forgets_v1_before_v2:
  "GetValidCert (Inr [TXT [cert_v1], TXT [cert_v2]]) Verify providerKey now
     = Inl (Error NoSupportedCertificate)
 \<and> GetValidCert (Inr [TXT [cert_v2], TXT [cert_v1]]) Verify providerKey now
     = verify_bincert Verify providerKey (decode_signedBincert cert_v1) now"
  by (simp add: GetValidCert_def sample_parse sample_version)

lemma parse_answer_not_NotDNSC: "parse_answer answer \<noteq> Inl (Error NotDNSC)"
proof (cases answer)
  case OtherRR
  then show ?thesis by (simp add: parse_answer_def)
next
  case (TXT ts)
  show ?thesis
  proof
    assume a: "parse_answer answer = Inl (Error NotDNSC)"
    then have ne: "ts \<noteq> []" and len: "5 \<le> length (ts ! 0)"
      using TXT by (auto simp: parse_answer_def split: if_splits)
    have nomagic: "take 5 (ts ! 0) \<noteq> certificateMagic"
      using len by (rule magic_check_never_fires)
    obtain buf e where u: "unpackTXT (ts ! 0) = Inr (buf, e)"
      using unpackTXT_total [of "ts ! 0"] by blast
    show False
    proof (cases e)
      case None
      then show ?thesis
        using a TXT ne len nomagic u read_signedBincert_Inl [of buf]
        by (auto simp: parse_answer_def split: sum.splits)
    next
      case (Some e')
      then show ?thesis
        using a TXT ne len nomagic u unpackTXT_error_cases [of "ts ! 0" buf e']
        by (auto simp: parse_answer_def)
    qed
  qed
qed

text \<open>
  Claim C5. The claim says that an answer whose text does not start with \<open>DNSC\<close> makes
  the call fail. The test in the code compares the first five bytes with the four-byte
  magic and returns the error when they are equal, which never happens: no answer at all
  gets the error "TXT record is not a DNSC certificate"; a certificate with \<open>XXXX\<close> in
  place of the magic goes through to a successful return; and the text \<open>DNSC\<close> alone, which
  does start with the magic, panics in the slice expression.
\<close>

theorem magic_check_rejects_nothing:
  "parse_answer answer \<noteq> Inl (Error NotDNSC)
 \<and> GetValidCert (Inr [TXT [cert_no_magic]]) (\<lambda>publicKey message sig. True) providerKey 5
     = Inr \<lparr>ServerPublicKey = replicate 32 0x42, MagicQuery = replicate 8 0x42,
            Serial = replicate 4 0x42, TSBegin = 1, TSEnd = 9\<rparr>
 \<and> parse_answer (TXT [certificateMagic]) = Inl (Panic SliceBoundsOutOfRange)"
proof -
  have "GetValidCert (Inr [TXT [cert_no_magic]]) (\<lambda>publicKey message sig. True) providerKey 5
     = check_validity (decode_SignedBincertFields (SignedData (decode_signedBincert cert_no_magic))) 5"
    by (simp add: GetValidCert_def sample_parse sample_version verify_bincert_def sample_data
        read_SignedBincertFields_52)
  moreover have "parse_answer (TXT [certificateMagic]) = Inl (Panic SliceBoundsOutOfRange)"
    by (simp add: parse_answer_def certificateMagic_def)
  ultimately show ?thesis
    using parse_answer_not_NotDNSC [of answer]
    by (simp add: sample_data sample_decode check_validity_cases)
qed

text \<open>
  Claim C6. For the certificate the scan kept, once its signature verifies, with \<open>f\<close> the
  fields read from its signed payload and \<open>now\<close> the clock as a signed 64-bit number of
  seconds: a clock inside the window, both bounds included, returns \<open>f\<close>; a clock that is
  not negative and before the start fails with "not yet valid"; a clock at or after the
  start and after the end fails with "no longer valid"; a negative clock fails with the
  pre-1970 error whatever the window is. For a window whose start is not after its end:
  at \<open>now = validityEnd\<close> the call returns \<open>f\<close>, at \<open>now = validityEnd + 1\<close> it fails with
  "no longer valid".
\<close>

theorem GetValidCert_validity_window:
  assumes "answers \<noteq> []"
    and "scan_answers answers None = Inr (Some bincert)"
    and "Verify providerKey (SignedData bincert) (Signature bincert)"
    and "f = decode_SignedBincertFields (SignedData bincert)"
  shows "(uint (TSBegin f) \<le> sint now \<and> sint now \<le> uint (TSEnd f) \<longrightarrow>
            GetValidCert (Inr answers) Verify providerKey now = Inr f)
       \<and> (0 \<le> sint now \<and> sint now < uint (TSBegin f) \<longrightarrow>
            GetValidCert (Inr answers) Verify providerKey now = Inl (Error NotYetValid))
       \<and> (uint (TSBegin f) \<le> sint now \<and> uint (TSEnd f) < sint now \<longrightarrow>
            GetValidCert (Inr answers) Verify providerKey now = Inl (Error NoLongerValid))
       \<and> (sint now < 0 \<longrightarrow>
            GetValidCert (Inr answers) Verify providerKey now = Inl (Error TimeTraveler))
       \<and> (TSBegin f \<le> TSEnd f \<longrightarrow>
            GetValidCert (Inr answers) Verify providerKey (ucast (TSEnd f)) = Inr f
          \<and> GetValidCert (Inr answers) Verify providerKey (ucast (TSEnd f) + 1)
              = Inl (Error NoLongerValid))"
proof -
  have len: "length (SignedData bincert) = 52"
    using assms(2) by (rule scan_answers_SignedData) simp
  have "verify_bincert Verify providerKey bincert t = check_validity f t" for t
    using len assms(3,4) by (simp add: verify_bincert_def read_SignedBincertFields_52)
  then have eq: "GetValidCert (Inr answers) Verify providerKey t = check_validity f t" for t
    using GetValidCert_scanned [OF assms(1,2)] by simp
  define b e s where bes: "b = uint (TSBegin f)" "e = uint (TSEnd f)" "s = sint now"
  have pos: "0 \<le> b" "0 \<le> e"
    by (simp_all add: bes)
  have le: "TSBegin f \<le> TSEnd f \<longleftrightarrow> b \<le> e"
    by (simp add: bes word_le_def)
  have at_now: "check_validity f now =
     (if s < 0 then Inl (Error TimeTraveler)
      else if s < b then Inl (Error NotYetValid)
      else if e < s then Inl (Error NoLongerValid)
      else Inr f)"
    by (simp add: check_validity_cases bes)
  have at_end: "check_validity f (ucast (TSEnd f)) =
     (if e < 0 then Inl (Error TimeTraveler)
      else if e < b then Inl (Error NotYetValid)
      else Inr f)"
    by (simp add: check_validity_cases sint_ucast_32_64 bes)
  have after_end: "check_validity f (ucast (TSEnd f) + 1) =
     (if e + 1 < 0 then Inl (Error TimeTraveler)
      else if e + 1 < b then Inl (Error NotYetValid)
      else Inl (Error NoLongerValid))"
    by (simp add: check_validity_cases sint_ucast_plus1 bes)
  show ?thesis
    unfolding eq le at_now at_end after_end bes [symmetric]
    using pos by auto
qed

theorem GetValidCert_validity_window_witness:
  "GetValidCert (Inr [TXT [cert_v1]]) (\<lambda>publicKey message sig. True) [] 1
     = Inr (decode_SignedBincertFields (SignedData (decode_signedBincert cert_v1)))
 \<and> GetValidCert (Inr [TXT [cert_v1]]) (\<lambda>publicKey message sig. True) [] 9
     = Inr (decode_SignedBincertFields (SignedData (decode_signedBincert cert_v1)))
 \<and> GetValidCert (Inr [TXT [cert_v1]]) (\<lambda>publicKey message sig. True) [] 10
     = Inl (Error NoLongerValid)
 \<and> GetValidCert (Inr [TXT [cert_v1]]) (\<lambda>publicKey message sig. True) [] 0
     = Inl (Error NotYetValid)
 \<and> GetValidCert (Inr [TXT [cert_v1]]) (\<lambda>publicKey message sig. True) [] (- 1)
     = Inl (Error TimeTraveler)"
proof -
  let ?f = "decode_SignedBincertFields (SignedData (decode_signedBincert cert_v1))"
  have ne: "[TXT [cert_v1]] \<noteq> []"
    by simp
  have scan: "scan_answers [TXT [cert_v1]] None = Inr (Some (decode_signedBincert cert_v1))"
    by (simp add: sample_parse sample_version)
  have ts: "TSBegin ?f = 1" "TSEnd ?f = 9"
    by (simp_all add: sample_data sample_decode)
  note w = GetValidCert_validity_window [OF ne scan _ refl, of "\<lambda>publicKey message sig. True" "[]"]
  show ?thesis
    using w [of 1] w [of 10] w [of 0] w [of "- 1"]
    by (simp add: ts)
qed

text \<open>
  Where the scan does keep the last version-1 certificate: every answer parses, whatever
  its version, and the last answer is a version-1 certificate. The signature check is
  then made on that certificate and the fields are read from its signed payload.
\<close>

lemma scan_answers_keeps_last:
  assumes "answers \<noteq> []"
    and "list_all (\<lambda>a. \<exists>c. parse_answer a = Inr c) answers"
    and "parse_answer (last answers) = Inr c" "VersionMajor c = 1"
  shows "scan_answers answers None = Inr (Some c)"
    and "GetValidCert (Inr answers) Verify providerKey now
           = verify_bincert Verify providerKey c now"
    and "\<not> Verify providerKey (SignedData c) (Signature c) \<Longrightarrow>
           GetValidCert (Inr answers) Verify providerKey now = Inl (Error InvalidSignature)"
    and "Verify providerKey (SignedData c) (Signature c) \<Longrightarrow>
           GetValidCert (Inr answers) Verify providerKey now
             = check_validity (decode_SignedBincertFields (SignedData c)) now"
proof -
  have split: "answers = butlast answers @ [last answers]"
    using assms(1) by simp
  have "list_all (\<lambda>a. \<exists>c. parse_answer a = Inr c) (butlast answers)"
    using assms(2) by (auto simp: list_all_iff dest: in_set_butlastD)
  then have "scan_answers (butlast answers @ [last answers]) None
               = Inr (if VersionMajor c \<noteq> 1 then None else Some c)"
    using assms(3) by (rule scan_answers_last)
  then show scan: "scan_answers answers None = Inr (Some c)"
    using split assms(4) by simp
  have len: "length (SignedData c) = 52"
    using assms(3) by (rule parse_answer_SignedData)
  show g: "GetValidCert (Inr answers) Verify providerKey now
             = verify_bincert Verify providerKey c now"
    using assms(1) scan by (rule GetValidCert_scanned)
  show "GetValidCert (Inr answers) Verify providerKey now = Inl (Error InvalidSignature)"
    if "\<not> Verify providerKey (SignedData c) (Signature c)"
    using g that by (simp add: verify_bincert_def)
  show "GetValidCert (Inr answers) Verify providerKey now
          = check_validity (decode_SignedBincertFields (SignedData c)) now"
    if "Verify providerKey (SignedData c) (Signature c)"
    using g that len by (simp add: verify_bincert_def read_SignedBincertFields_52)
qed

text \<open>
  Where it does not: every answer parses and the last answer is a certificate of another
  major version. Whatever version-1 certificates stand before it, nothing is kept.
\<close>

lemma scan_answers_drops_all:
  assumes "list_all (\<lambda>a. \<exists>c. parse_answer a = Inr c) answers"
    and "parse_answer z = Inr c" "VersionMajor c \<noteq> 1"
  shows "GetValidCert (Inr (answers @ [z])) Verify providerKey now
           = Inl (Error NoSupportedCertificate)"
  using scan_answers_last [OF assms(1,2), of None] assms(3)
  by (simp add: GetValidCert_def)

text \<open>
  Claim C7. The claim says that of two or more version-1 certificates in the answers the
  last one is kept. The code keeps it when it is the last answer, also with a
  certificate of another version between the two; when a certificate of another version
  follows it, the round for that answer sets \<^verbatim>\<open>bincert\<close> to \<^verbatim>\<open>nil\<close>, both version-1
  certificates are lost and the call fails with "No certificate for supported crypto
  constructions found", whatever the key and the clock.
\<close>

theorem GetValidCert_forgets_last_v1_before_v2:
  "GetValidCert (Inr [TXT [cert_v1], TXT [cert_v1'], TXT [cert_v2]]) Verify providerKey now
     = Inl (Error NoSupportedCertificate)
 \<and> GetValidCert (Inr [TXT [cert_v1], TXT [cert_v1']]) Verify providerKey now
     = verify_bincert Verify providerKey (decode_signedBincert cert_v1') now
 \<and> GetValidCert (Inr [TXT [cert_v1], TXT [cert_v2], TXT [cert_v1']]) Verify providerKey now
     = verify_bincert Verify providerKey (decode_signedBincert cert_v1') now"
  by (simp add: GetValidCert_def sample_parse sample_version)

section \<open>Encrypted exchange engine: properties\<close>

lemma send_query_nonce_length:
  assumes "send_query w msg bincertFields = Inr (clientSK, nonce, sent)"
  shows "length nonce = 24"
  using assms
  by (auto simp: send_query_def Let_def copy_def split: sum.splits prod.splits option.splits)

lemma resolverMagic_no_zero: "0 \<notin> set resolverMagic" "length resolverMagic = 8"
  by (simp_all add: resolverMagic_def)

lemma buffer_magic:
  assumes "8 \<le> k"
  shows "take 8 (d @ replicate k 0) = resolverMagic \<longleftrightarrow> take 8 d = resolverMagic"
proof (cases "8 \<le> length d")
  case True
  then show ?thesis by simp
next
  case False
  then have short: "length d < 8" by simp
  have "length (take 8 d) \<noteq> length resolverMagic"
    using short by (simp add: resolverMagic_no_zero(2))
  then have "take 8 d \<noteq> resolverMagic"
    by metis
  moreover have "take 8 (d @ replicate k 0) \<noteq> resolverMagic"
  proof
    assume eq: "take 8 (d @ replicate k 0) = resolverMagic"
    have "resolverMagic ! length d = take 8 (d @ replicate k 0) ! length d"
      using eq by simp
    also have "\<dots> = (d @ replicate k 0) ! length d"
      using short by (rule nth_take)
    also have "\<dots> = 0"
      using short assms by (simp add: nth_append)
    finally have "resolverMagic ! length d = 0" .
    moreover have "resolverMagic ! length d \<in> set resolverMagic"
      using short by (simp add: resolverMagic_no_zero(2))
    ultimately show False
      using resolverMagic_no_zero(1) by simp
  qed
  ultimately show ?thesis by simp
qed

lemma dnsMaxSizeUDP_value: "dnsMaxSizeUDP = 65508"
  by (simp add: dnsMaxSizeUDP_def)

text \<open>The receive half with the buffer \<open>p\<close> and the count \<open>n\<close> named.\<close>

lemma receive_reply_unfold:
  assumes "conn_Read w sent = Inr datagram" "length datagram \<le> dnsMaxSizeUDP"
    and "p = datagram @ replicate (dnsMaxSizeUDP - length datagram) 0"
  shows "receive_reply w bincertFields clientSK nonce0 sent =
     (let h = decode_dnsCryptResponseHeader (take 32 p)
      in if ServerMagic h \<noteq> resolverMagic then Inl (Error MagicMismatch)
         else if length datagram < 32 then Inl (Panic SliceBoundsOutOfRange)
         else (case box_Open w (drop 32 datagram) (copy nonce0 (ClientNonce' h @ ServerNonce h))
                      (ServerPublicKey bincertFields) clientSK of
                 None \<Rightarrow> Inl (Error DecryptError)
               | Some dnsResponse \<Rightarrow>
                   (case removePadding dnsResponse of
                      Inl f \<Rightarrow> Inl f
                    | Inr unpadded \<Rightarrow>
                        (case Unpack w unpadded of
                           Inl e \<Rightarrow> Inl (Error e)
                         | Inr responseMsg \<Rightarrow> Inr responseMsg))))"
proof -
  have n: "min (length datagram) dnsMaxSizeUDP = length datagram"
    using assms(2) by simp
  have len: "length p = dnsMaxSizeUDP"
    using assms(2,3) by simp
  have hdr: "read_dnsCryptResponseHeader (take 32 p)
               = Inr (decode_dnsCryptResponseHeader (take 32 p))"
    using len by (simp add: read_dnsCryptResponseHeader_def ReadFull_def dnsMaxSizeUDP_value)
  have p: "take (length datagram) datagram @ replicate (dnsMaxSizeUDP - length datagram) 0 = p"
    using assms(3) by simp
  have enc: "drop 32 (take (length datagram) p) = drop 32 datagram"
    using assms(3) by simp
  show ?thesis
    unfolding receive_reply_def assms(1) sum.case Let_def n p
    using hdr enc by simp
qed

lemma receive_short:
  assumes "conn_Read w sent = Inr datagram" "length datagram < 32"
  shows "receive_reply w bincertFields clientSK nonce0 sent =
           (if take 8 datagram = resolverMagic then Inl (Panic SliceBoundsOutOfRange)
            else Inl (Error MagicMismatch))"
proof -
  define p where "p = datagram @ replicate (dnsMaxSizeUDP - length datagram) 0"
  have le: "length datagram \<le> dnsMaxSizeUDP"
    using assms(2) by (simp add: dnsMaxSizeUDP_value)
  have "ServerMagic (decode_dnsCryptResponseHeader (take 32 p)) = take 8 p"
    by (simp add: decode_dnsCryptResponseHeader_def)
  moreover have "take 8 p = resolverMagic \<longleftrightarrow> take 8 datagram = resolverMagic"
    unfolding p_def using assms(2) by (intro buffer_magic) (simp add: dnsMaxSizeUDP_value)
  ultimately have magic: "ServerMagic (decode_dnsCryptResponseHeader (take 32 p)) = resolverMagic
      \<longleftrightarrow> take 8 datagram = resolverMagic"
    by simp
  show ?thesis
    unfolding receive_reply_unfold [OF assms(1) le p_def] Let_def
    using magic assms(2) by simp
qed

lemma receive_full:
  assumes "conn_Read w sent = Inr datagram" "32 \<le> length datagram"
    "length datagram \<le> dnsMaxSizeUDP" "length nonce0 = 24"
    "take 8 datagram = resolverMagic"
  shows "receive_reply w bincertFields clientSK nonce0 sent =
           (case box_Open w (drop 32 datagram)
                   (take 12 (drop 8 datagram) @ take 12 (drop 20 datagram))
                   (ServerPublicKey bincertFields) clientSK of
              None \<Rightarrow> Inl (Error DecryptError)
            | Some dnsResponse \<Rightarrow>
                (case removePadding dnsResponse of
                   Inl f \<Rightarrow> Inl f
                 | Inr unpadded \<Rightarrow>
                     (case Unpack w unpadded of
                        Inl e \<Rightarrow> Inl (Error e)
                      | Inr responseMsg \<Rightarrow> Inr responseMsg)))"
proof -
  define p where "p = datagram @ replicate (dnsMaxSizeUDP - length datagram) 0"
  define h where "h = decode_dnsCryptResponseHeader (take 32 p)"
  have t32: "take 32 p = take 32 datagram"
    unfolding p_def using assms(2) by simp
  have magic: "ServerMagic h = resolverMagic"
    unfolding h_def t32 using assms(5) by (simp add: decode_dnsCryptResponseHeader_def)
  have cn: "ClientNonce' h = take 12 (drop 8 datagram)"
    unfolding h_def t32 by (simp add: decode_dnsCryptResponseHeader_def take_drop)
  have sn: "ServerNonce h = take 12 (drop 20 datagram)"
    unfolding h_def t32 by (simp add: decode_dnsCryptResponseHeader_def take_drop)
  have l24: "length (take 12 (drop 8 datagram) @ take 12 (drop 20 datagram)) = 24"
    using assms(2) by simp
  have nonce: "copy nonce0 (ClientNonce' h @ ServerNonce h)
                 = take 12 (drop 8 datagram) @ take 12 (drop 20 datagram)"
    unfolding cn sn copy_def using l24 assms(4) by simp
  show ?thesis
    unfolding receive_reply_unfold [OF assms(1,3) p_def] Let_def h_def [symmetric]
    using magic nonce assms(2) by simp
qed

lemma ExchangeEncrypted_sent:
  assumes "send_query w msg bincertFields = Inr (clientSK, nonce, sent)"
  shows "ExchangeEncrypted w msg bincertFields = receive_reply w bincertFields clientSK nonce sent"
  using assms by (simp add: ExchangeEncrypted_def)

text \<open>
  Claim C9. After a query that was sent, a reply of fewer than 32 bytes whose first eight
  bytes are the resolver magic makes \<open>ExchangeEncrypted\<close> panic in the slice expression
  \<^verbatim>\<open>p[32:n]\<close>: no error value is returned. A reply of fewer than 32 bytes whose first
  eight bytes are not the resolver magic (an all-zero one, for instance) returns the error
  "Magic bytes do not match".
\<close>

theorem ExchangeEncrypted_short_reply:
  assumes "send_query w msg bincertFields = Inr (clientSK, nonce, sent)"
    and "conn_Read w sent = Inr datagram"
    and "length datagram < 32"
  shows "(take 8 datagram = resolverMagic \<longrightarrow>
            ExchangeEncrypted w msg bincertFields = Inl (Panic SliceBoundsOutOfRange))
       \<and> (take 8 datagram \<noteq> resolverMagic \<longrightarrow>
            ExchangeEncrypted w msg bincertFields = Inl (Error MagicMismatch))"
  using ExchangeEncrypted_sent [OF assms(1)] receive_short [OF assms(2,3)] by simp

lemma sample_send:
  "\<exists>nonce sent. send_query (sample_collaborators reply) m sample_fields
                   = Inr (replicate 32 0x33, nonce, sent)"
  by (simp add: send_query_def sample_collaborators_def addPadding_nonzero)

theorem ExchangeEncrypted_short_reply_witness:
  "ExchangeEncrypted (sample_collaborators (resolverMagic @ [1, 2, 3])) [0xAA] sample_fields
     = Inl (Panic SliceBoundsOutOfRange)
 \<and> ExchangeEncrypted (sample_collaborators (replicate 10 0)) [0xAA] sample_fields
     = Inl (Error MagicMismatch)"
proof -
  obtain n1 s1 where s1: "send_query (sample_collaborators (resolverMagic @ [1, 2, 3])) [0xAA]
      sample_fields = Inr (replicate 32 0x33, n1, s1)"
    using sample_send by blast
  have r1: "conn_Read (sample_collaborators (resolverMagic @ [1, 2, 3])) s1
              = Inr (resolverMagic @ [1, 2, 3])"
    by (simp add: sample_collaborators_def)
  have l1: "length (resolverMagic @ [1, 2, 3 :: byte]) < 32"
    by (simp add: resolverMagic_def)
  have m1: "take 8 (resolverMagic @ [1, 2, 3]) = resolverMagic"
    by (simp add: resolverMagic_def)
  obtain n2 s2 where s2: "send_query (sample_collaborators (replicate 10 0)) [0xAA]
      sample_fields = Inr (replicate 32 0x33, n2, s2)"
    using sample_send by blast
  have r2: "conn_Read (sample_collaborators (replicate 10 0)) s2 = Inr (replicate 10 0)"
    by (simp add: sample_collaborators_def)
  have l2: "length (replicate 10 (0 :: byte)) < 32"
    by simp
  have "0 \<in> set (take 8 (replicate 10 (0 :: byte)))"
    by simp
  then have m2: "take 8 (replicate 10 0) \<noteq> resolverMagic"
    using resolverMagic_no_zero(1) by metis
  show ?thesis
    using ExchangeEncrypted_short_reply [OF s1 r1 l1] ExchangeEncrypted_short_reply [OF s2 r2 l2]
      m1 m2
    by blast
qed

lemma send_query_carries_nonce:
  assumes "rand_Read w = Inr clientNonce"
    and "send_query w msg bincertFields = Inr (clientSK, nonce, sent)"
  shows "\<exists>clientPK encryptedQuery.
           sent = MagicQuery bincertFields @ clientPK @ clientNonce @ encryptedQuery"
  using assms
  by (auto simp: send_query_def Let_def write_dnsCryptQueryHeader_def
      split: sum.splits prod.splits option.splits)

text \<open>
  Claim C10. The client nonce half of the reply header is never compared with the one
  drawn for the query and sent in its header: for a reply of at least 32 bytes with the
  resolver magic whose client half differs from the one sent, when the box opens under
  the nonce made of the header's client half and server half, and the padding and the
  message are well formed, \<open>ExchangeEncrypted\<close> returns the message.
\<close>

theorem ExchangeEncrypted_accepts_other_client_nonce:
  assumes "rand_Read w = Inr clientNonce"
    and "send_query w msg bincertFields = Inr (clientSK, nonce, sent)"
    and "conn_Read w sent = Inr datagram"
    and "32 \<le> length datagram" "length datagram \<le> dnsMaxSizeUDP"
    and "take 8 datagram = resolverMagic"
    and "take 12 (drop 8 datagram) \<noteq> clientNonce"
    and "box_Open w (drop 32 datagram) (take 12 (drop 8 datagram) @ take 12 (drop 20 datagram))
           (ServerPublicKey bincertFields) clientSK = Some dnsResponse"
    and "removePadding dnsResponse = Inr unpadded"
    and "Unpack w unpadded = Inr responseMsg"
  shows "(\<exists>clientPK encryptedQuery.
            sent = MagicQuery bincertFields @ clientPK @ clientNonce @ encryptedQuery)
       \<and> ExchangeEncrypted w msg bincertFields = Inr responseMsg"
proof -
  have "length nonce = 24"
    using assms(2) by (rule send_query_nonce_length)
  then have "receive_reply w bincertFields clientSK nonce sent = Inr responseMsg"
    using receive_full [OF assms(3,4,5) _ assms(6), of nonce bincertFields clientSK] assms(8-10)
    by simp
  then have "ExchangeEncrypted w msg bincertFields = Inr responseMsg"
    using ExchangeEncrypted_sent [OF assms(2)] by simp
  then show ?thesis
    using send_query_carries_nonce [OF assms(1,2)] by simp
qed

theorem ExchangeEncrypted_accepts_other_client_nonce_witness:
  "ExchangeEncrypted
     (sample_collaborators (resolverMagic @ replicate 12 0x99 @ replicate 12 0x77
        @ replicate 16 0xFF @ [0xAA, 0xBB, 0x80, 0]))
     [0x01] sample_fields
   = Inr [0xAA, 0xBB]"
proof -
  let ?reply = "resolverMagic @ replicate 12 0x99 @ replicate 12 0x77
        @ replicate 16 0xFF @ [0xAA, 0xBB, 0x80, 0 :: byte]"
  let ?w = "sample_collaborators ?reply"
  have rnd: "rand_Read ?w = Inr (replicate 12 0x11)"
    by (simp add: sample_collaborators_def)
  obtain n s where snd: "send_query ?w [0x01] sample_fields = Inr (replicate 32 0x33, n, s)"
    using sample_send by blast
  have rd: "conn_Read ?w s = Inr ?reply"
    by (simp add: sample_collaborators_def)
  have len: "32 \<le> length ?reply" "length ?reply \<le> dnsMaxSizeUDP"
    by (simp_all add: resolverMagic_def dnsMaxSizeUDP_def)
  have magic: "take 8 ?reply = resolverMagic"
    by (simp add: resolverMagic_def)
  have other: "take 12 (drop 8 ?reply) \<noteq> replicate 12 0x11"
    by (simp add: resolverMagic_def)
  have opened: "box_Open ?w (drop 32 ?reply) (take 12 (drop 8 ?reply) @ take 12 (drop 20 ?reply))
           (ServerPublicKey sample_fields) (replicate 32 0x33) = Some [0xAA, 0xBB, 0x80, 0]"
    by (simp add: sample_collaborators_def resolverMagic_def)
  have unpadded: "removePadding [0xAA, 0xBB, 0x80, 0] = Inr [0xAA, 0xBB]"
    using removePadding_marker [of "[0xAA, 0xBB]" 1] by simp
  have unpacked: "Unpack ?w [0xAA, 0xBB] = Inr [0xAA, 0xBB]"
    by (simp add: sample_collaborators_def)
  show ?thesis
    using ExchangeEncrypted_accepts_other_client_nonce
      [OF rnd snd rd len magic other opened unpadded unpacked]
    by (rule conjunct2)
qed

end
